theory Spec2Isabelle
  imports Main "HOL-Library.Word"
begin

section \<open>Shared helpers: JavaScript arrays and strings\<close>

text \<open>
  \<^verbatim>\<open>Array.prototype.indexOf\<close>: the index of the first element strictly equal to the
  value, or \<open>-1\<close> when there is none.
\<close>

fun indexOf :: "'a list \<Rightarrow> 'a \<Rightarrow> int" where
  "indexOf [] v = -1"
| "indexOf (x # xs) v =
     (if x = v then 0 else (let i = indexOf xs v in if i = -1 then -1 else i + 1))"

text \<open>\<^verbatim>\<open>xs.splice(idx, 1)\<close> for an index inside the array: drops that one element.\<close>

definition splice1 :: "nat \<Rightarrow> 'a list \<Rightarrow> 'a list" where
  "splice1 idx xs = take idx xs @ drop (Suc idx) xs"

text \<open>\<^verbatim>\<open>Array.prototype.join\<close> on an array of strings.\<close>

fun join :: "string \<Rightarrow> string list \<Rightarrow> string" where
  "join sep [] = []"
| "join sep [x] = x"
| "join sep (x # y # ys) = x @ sep @ join sep (y # ys)"

text \<open>
  The decimal digits of a natural number, most significant first. A template literal
  prints a whole number below \<open>10^21\<close> this way.
\<close>

definition digit :: "nat \<Rightarrow> char" where
  "digit d = ''0123456789'' ! d"

fun decimal :: "nat \<Rightarrow> string" where
  "decimal n = (if n div 10 = 0 then [digit n] else decimal (n div 10) @ [digit (n mod 10)])"

declare decimal.simps [simp del]

section \<open>The label registry (components/label/label.ts, useLabels)\<close>

text \<open>
  \<^verbatim>\<open>labelIds\<close> is a reactive array of strings. \<^verbatim>\<open>register(value)\<close> pushes the value
  and returns a closure over \<^verbatim>\<open>value\<close>; the closure is \<open>unregister value\<close> below.
\<close>

definition register :: "string \<Rightarrow> string list \<Rightarrow> string list" where
  "register v labelIds = labelIds @ [v]"

definition unregister :: "string \<Rightarrow> string list \<Rightarrow> string list" where
  "unregister v labelIds =
     (let idx = indexOf labelIds v
      in if idx = -1 then labelIds else splice1 (nat idx) labelIds)"

text \<open>The computed value that \<^verbatim>\<open>useLabels\<close> returns; \<open>None\<close> is \<^verbatim>\<open>undefined\<close>.\<close>

definition labelledby :: "string list \<Rightarrow> string option" where
  "labelledby labelIds =
     (if length labelIds > 0 then Some (join '' '' labelIds) else None)"

section \<open>The dialog component (src/unnamed/part_000)\<close>

datatype DialogStates = Open | Closed

text \<open>
  A thrown JavaScript error: an \<^verbatim>\<open>Error\<close> with its message, or the \<^verbatim>\<open>TypeError\<close> that
  the conversion of a value to a string can throw.
\<close>

datatype error = Error string | TypeError string

text \<open>
  The values a prop can hold at run time, as far as the validation in the dialog's
  setup function tells them apart: a boolean, a string, or a value of another type.
  How the JavaScript engine converts a value of another type to a string is not
  computed here: the value carries the outcome of the conversion, the text that a
  template literal prints for it or the error that the conversion throws (as it
  does for a symbol).
\<close>

datatype other_type = TUndefined | TObject | TNumber | TBigint | TSymbol | TFunction

datatype js_value = JBool bool | JString string | JOther other_type "error + string"

fun typeof :: "js_value \<Rightarrow> string" where
  "typeof (JBool b) = ''boolean''"
| "typeof (JString s) = ''string''"
| "typeof (JOther TUndefined r) = ''undefined''"
| "typeof (JOther TObject r) = ''object''"
| "typeof (JOther TNumber r) = ''number''"
| "typeof (JOther TBigint r) = ''bigint''"
| "typeof (JOther TSymbol r) = ''symbol''"
| "typeof (JOther TFunction r) = ''function''"

text \<open>What a template literal does with a value.\<close>

fun to_string :: "js_value \<Rightarrow> error + string" where
  "to_string (JBool b) = Inr (if b then ''true'' else ''false'')"
| "to_string (JString s) = Inr s"
| "to_string (JOther ty r) = r"

definition undefined_value :: js_value where
  "undefined_value = JOther TUndefined (Inr ''undefined'')"

text \<open>The default of the \<^verbatim>\<open>open\<close> prop: the value setup sees when the prop is not passed.\<close>

definition Missing :: js_value where
  "Missing = JString ''DC8F892D-2EBD-447C-A4C8-A03058436FF4''"

text \<open>
  The state that the setup function of the dialog creates: the \<^verbatim>\<open>open\<close> prop, the
  \<^verbatim>\<open>containers\<close> set (a JavaScript \<^verbatim>\<open>Set\<close>: insertion order, no duplicates), the
  \<^verbatim>\<open>enabled\<close> and \<^verbatim>\<open>titleId\<close> refs, and the payloads of the \<^verbatim>\<open>close\<close> events emitted
  so far.
\<close>

record 'e dialog =
  open_prop :: bool
  containers :: "'e list"
  enabled :: bool
  titleId :: "string option"
  emitted :: "bool list"

definition dialogState :: "'e dialog \<Rightarrow> DialogStates" where
  "dialogState d = (if open_prop d then Open else Closed)"

text \<open>
  The validation at the head of the setup function, and the state setup goes on to
  create when the validation passes. A \<^verbatim>\<open>throw\<close> is the \<open>Inl\<close> result. (The function
  is \<^verbatim>\<open>setup\<close> in the source.) The value is \<^verbatim>\<open>props.open\<close> as setup reads it: the
  framework has put the default \<open>Missing\<close> in place of a prop that was not passed. The
  hooks that setup calls after the validation only register callbacks and are not
  part of this function.
\<close>

definition dialog_setup :: "js_value \<Rightarrow> error + 'e dialog" where
  "dialog_setup open_value =
     (let hasOpen = (open_value \<noteq> Missing) in
      if \<not> hasOpen then
        Inl (Error ''You forgot to provide an `open` prop to the `Dialog`.'')
      else if typeof open_value \<noteq> ''boolean'' then
        (case to_string (if open_value = Missing then undefined_value else open_value) of
           Inl thrown \<Rightarrow> Inl thrown
         | Inr received \<Rightarrow>
             Inl (Error (''You provided an `open` prop to the `Dialog`, but the value is not a boolean. Received: ''
                         @ received)))
      else
        Inr \<lparr> open_prop = (open_value = JBool True),
              containers = [],
              enabled = (open_value = JBool True),
              titleId = None,
              emitted = [] \<rparr>)"

text \<open>\<^verbatim>\<open>Set.prototype.add\<close> and \<^verbatim>\<open>Set.prototype.delete\<close>.\<close>

definition set_add :: "'e \<Rightarrow> 'e list \<Rightarrow> 'e list" where
  "set_add x xs = (if x \<in> set xs then xs else xs @ [x])"

definition set_delete :: "'e \<Rightarrow> 'e list \<Rightarrow> 'e list" where
  "set_delete x xs = filter (\<lambda>y. y \<noteq> x) xs"

datatype StackMessage = AddElement | RemoveElement

text \<open>The callback that setup hands to \<^verbatim>\<open>useStackProvider\<close>.\<close>

definition onStackUpdate :: "StackMessage \<Rightarrow> 'e \<Rightarrow> 'e dialog \<Rightarrow> 'e dialog" where
  "onStackUpdate message el d =
     (case message of
        AddElement \<Rightarrow> d\<lparr>containers := set_add el (containers d)\<rparr>
      | RemoveElement \<Rightarrow> d\<lparr>containers := set_delete el (containers d)\<rparr>)"

text \<open>
  Modelled from the spec: the stack context (internal/stack-context) is not among the
  sources. A stackable region that mounts inside nested providers is announced to its
  own provider and to every enclosing one, so an inner dialog is registered in the
  outer dialog's stack. \<open>providers\<close> lists the enclosing dialogs, innermost first.
\<close>

definition notify :: "StackMessage \<Rightarrow> 'e \<Rightarrow> 'e dialog list \<Rightarrow> 'e dialog list" where
  "notify message el providers = map (onStackUpdate message el) providers"

definition setTitleId :: "string option \<Rightarrow> 'e dialog \<Rightarrow> 'e dialog" where
  "setTitleId i d = (if titleId d = i then d else d\<lparr>titleId := i\<rparr>)"

text \<open>\<^verbatim>\<open>api.close()\<close> emits \<^verbatim>\<open>close\<close> with the payload \<^verbatim>\<open>false\<close>.\<close>

definition close :: "'e dialog \<Rightarrow> 'e dialog" where
  "close d = d\<lparr>emitted := emitted d @ [False]\<rparr>"

text \<open>The prop changes from outside; \<^verbatim>\<open>onUpdated\<close> then refreshes \<^verbatim>\<open>enabled\<close>.\<close>

definition set_open :: "bool \<Rightarrow> 'e dialog \<Rightarrow> 'e dialog" where
  "set_open b d = d\<lparr>open_prop := b\<rparr>"

definition onUpdated :: "'e dialog \<Rightarrow> 'e dialog" where
  "onUpdated d = d\<lparr>enabled := (dialogState d = Open)\<rparr>"

text \<open>
  Modelled from the spec: the helper \<^verbatim>\<open>contains\<close> (internal/dom-containers) is not among
  the sources. It answers whether some container of the set contains the element;
  \<open>node_contains\<close> is the browser's \<^verbatim>\<open>Node.contains\<close>, taken as a parameter.
\<close>

fun contains :: "('e \<Rightarrow> 'e \<Rightarrow> bool) \<Rightarrow> 'e list \<Rightarrow> 'e \<Rightarrow> bool" where
  "contains node_contains [] el = False"
| "contains node_contains (container # rest) el =
     (if node_contains container el then True else contains node_contains rest el)"

text \<open>
  The \<^verbatim>\<open>mousedown\<close> handler on the window. The second component is the element that
  the handler schedules a \<^verbatim>\<open>focus()\<close> on for the next tick, if any.
\<close>

definition handleMouseDown ::
  "('e \<Rightarrow> 'e \<Rightarrow> bool) \<Rightarrow> 'e dialog \<Rightarrow> 'e \<Rightarrow> 'e dialog \<times> 'e option" where
  "handleMouseDown node_contains d event_target =
     (if dialogState d \<noteq> Open then (d, None)
      else if length (containers d) \<noteq> 1 then (d, None)
      else if contains node_contains (containers d) event_target then (d, None)
      else (close d, Some event_target))"

record keyboard_event =
  key :: string
  defaultPrevented :: bool
  propagationStopped :: bool

text \<open>
  Modelled from the spec: the key-name constants (keyboard.ts) are not among the
  sources; \<^verbatim>\<open>Keys.Escape\<close> is the key name of the Escape key.
\<close>

definition Keys_Escape :: string where
  "Keys_Escape = ''Escape''"

definition handleKeyDown :: "'e dialog \<Rightarrow> keyboard_event \<Rightarrow> 'e dialog \<times> keyboard_event" where
  "handleKeyDown d event =
     (if key event \<noteq> Keys_Escape then (d, event)
      else if dialogState d \<noteq> Open then (d, event)
      else if length (containers d) > 1 then (d, event)
      else (close d, event\<lparr>defaultPrevented := True, propagationStopped := True\<rparr>))"

subsection \<open>The scroll lock\<close>

text \<open>
  The inline style of \<^verbatim>\<open>document.documentElement\<close> is a CSS declaration block. \<open>style\<close>
  maps the name of a longhand property to its declared value, the empty string when
  the property is not declared (priorities are left out). The two widths that the
  effect reads are attributes of type \<^verbatim>\<open>long\<close>, signed 32-bit integers.
\<close>

record document =
  style :: "string \<Rightarrow> string"
  innerWidth :: "32 word"
  clientWidth :: "32 word"

text \<open>
  \<^verbatim>\<open>overflow\<close> is a shorthand for the longhands \<^verbatim>\<open>overflow-x\<close> and \<^verbatim>\<open>overflow-y\<close>. Its
  value as a string is empty, one keyword, or two keywords separated by a space;
  \<open>shorthand\<close> is that string, parsed.
\<close>

datatype shorthand = Empty | One string | Two string string

text \<open>
  Reading \<^verbatim>\<open>style.overflow\<close>: the empty string unless both longhands are declared, one
  keyword when they are equal, both keywords otherwise.
\<close>

definition get_overflow :: "document \<Rightarrow> shorthand" where
  "get_overflow doc =
     (let x = style doc ''overflow-x''; y = style doc ''overflow-y''
      in if x = [] \<or> y = [] then Empty else if x = y then One x else Two x y)"

text \<open>
  Assigning to \<^verbatim>\<open>style.overflow\<close>: the empty string removes both longhands, a value
  declares both. The effect assigns the keyword \<^verbatim>\<open>hidden\<close> and values it has read
  before, which are valid.
\<close>

fun set_overflow :: "shorthand \<Rightarrow> document \<Rightarrow> document" where
  "set_overflow Empty doc =
     doc\<lparr>style := (style doc)(''overflow-x'' := [], ''overflow-y'' := [])\<rparr>"
| "set_overflow (One v) doc =
     doc\<lparr>style := (style doc)(''overflow-x'' := v, ''overflow-y'' := v)\<rparr>"
| "set_overflow (Two x y) doc =
     doc\<lparr>style := (style doc)(''overflow-x'' := x, ''overflow-y'' := y)\<rparr>"

text \<open>\<^verbatim>\<open>paddingRight\<close> is the longhand \<^verbatim>\<open>padding-right\<close>.\<close>

definition get_paddingRight :: "document \<Rightarrow> string" where
  "get_paddingRight doc = style doc ''padding-right''"

text \<open>
  The two kinds of value the effect assigns to \<^verbatim>\<open>style.paddingRight\<close>: a whole number
  of pixels, the template literal with \<^verbatim>\<open>px\<close> after the number, and a string it has
  read from the property before. A negative length is not a valid padding, and the
  assignment of an invalid value changes nothing; a string read before is valid or
  empty, and the empty string removes the declaration.
\<close>

datatype padding_value = Pixels int | ReadBack string

definition set_paddingRight :: "padding_value \<Rightarrow> document \<Rightarrow> document" where
  "set_paddingRight v doc =
     (case v of
        Pixels w \<Rightarrow>
          if w < 0 then doc
          else doc\<lparr>style := (style doc)(''padding-right'' := decimal (nat w) @ ''px'')\<rparr>
      | ReadBack earlier \<Rightarrow> doc\<lparr>style := (style doc)(''padding-right'' := earlier)\<rparr>)"

text \<open>
  What the callback given to \<^verbatim>\<open>onInvalidate\<close> has captured: the values of \<^verbatim>\<open>overflow\<close>
  and \<^verbatim>\<open>paddingRight\<close> read when the effect ran; \<open>None\<close> when the effect registered
  no callback.
\<close>

type_synonym cleanup = "(shorthand \<times> string) option"

definition scrollLock :: "DialogStates \<Rightarrow> document \<Rightarrow> document \<times> cleanup" where
  "scrollLock st doc =
     (if st \<noteq> Open then (doc, None)
      else
        let overflow = get_overflow doc;
            paddingRight = get_paddingRight doc;
            scrollbarWidth = sint (innerWidth doc) - sint (clientWidth doc)
        in (set_paddingRight (Pixels scrollbarWidth) (set_overflow (One ''hidden'') doc),
            Some (overflow, paddingRight)))"

fun invalidate :: "cleanup \<Rightarrow> document \<Rightarrow> document" where
  "invalidate None doc = doc"
| "invalidate (Some (overflow, paddingRight)) doc =
     set_paddingRight (ReadBack paddingRight) (set_overflow overflow doc)"

text \<open>
  \<^verbatim>\<open>watchEffect\<close> of the framework: a (re-)run of the effect, which the framework starts
  at setup and whenever \<^verbatim>\<open>dialogState\<close> changes, first calls the callback registered by
  the previous run; stopping the effect at unmount calls it too.
\<close>

definition watch_run :: "DialogStates \<Rightarrow> document \<times> cleanup \<Rightarrow> document \<times> cleanup" where
  "watch_run st w = scrollLock st (invalidate (snd w) (fst w))"

definition watch_stop :: "document \<times> cleanup \<Rightarrow> document \<times> cleanup" where
  "watch_stop w = (invalidate (snd w) (fst w), None)"

section \<open>The transition engine\<close>

text \<open>
  Modelled from the spec: the transition component and its class-driving helper
  (components/transitions/transition.ts and the transition utility) are not among the
  sources, only their test is. The data of section 3 of the spec: a phase, the six
  class lists, and the target element, here its class list (\<open>None\<close> when the element
  is absent). \<open>pending\<close> is the callback the run in flight has registered, \<open>events\<close>
  the lifecycle events emitted so far, \<open>completions\<close> the number of calls of
  \<^verbatim>\<open>onComplete\<close>.
\<close>

datatype direction = Enter | Leave

datatype phase = Idle | Entering | Leaving

datatype lifecycle = BeforeEnter | AfterEnter | BeforeLeave | AfterLeave

record classLists =
  enterBase :: "string list"
  enterFrom :: "string list"
  enterTo :: "string list"
  leaveBase :: "string list"
  leaveFrom :: "string list"
  leaveTo :: "string list"

datatype waiting = NextFrame | Completion

record engine =
  phase :: phase
  classes :: classLists
  target :: "string list option"
  pending :: "waiting option"
  events :: "lifecycle list"
  completions :: nat

text \<open>
  \<^verbatim>\<open>classList.add\<close> and \<^verbatim>\<open>classList.remove\<close> of the DOM: a class list holds a token at
  most once, new tokens go to the end.
\<close>

fun addClasses :: "string list \<Rightarrow> string list \<Rightarrow> string list" where
  "addClasses [] classList = classList"
| "addClasses (c # cs) classList =
     addClasses cs (if c \<in> set classList then classList else classList @ [c])"

definition removeClasses :: "string list \<Rightarrow> string list \<Rightarrow> string list" where
  "removeClasses cs classList = filter (\<lambda>c. c \<notin> set cs) classList"

text \<open>
  Modelled from the spec: the base, from and to classes of a direction, its two
  lifecycle events and its phase.
\<close>

fun base :: "direction \<Rightarrow> classLists \<Rightarrow> string list" where
  "base Enter cl = enterBase cl"
| "base Leave cl = leaveBase cl"

fun from_classes :: "direction \<Rightarrow> classLists \<Rightarrow> string list" where
  "from_classes Enter cl = enterFrom cl"
| "from_classes Leave cl = leaveFrom cl"

fun to_classes :: "direction \<Rightarrow> classLists \<Rightarrow> string list" where
  "to_classes Enter cl = enterTo cl"
| "to_classes Leave cl = leaveTo cl"

text \<open>Modelled from the spec: "all transition-related classes" are the six lists.\<close>

definition transition_classes :: "classLists \<Rightarrow> string list" where
  "transition_classes cl =
     enterBase cl @ enterFrom cl @ enterTo cl @ leaveBase cl @ leaveFrom cl @ leaveTo cl"

fun before :: "direction \<Rightarrow> lifecycle" where
  "before Enter = BeforeEnter"
| "before Leave = BeforeLeave"

fun after :: "direction \<Rightarrow> lifecycle" where
  "after Enter = AfterEnter"
| "after Leave = AfterLeave"

fun running :: "direction \<Rightarrow> phase" where
  "running Enter = Entering"
| "running Leave = Leaving"

text \<open>
  Modelled from the spec: cancellation (4.1, step 5) detaches the pending listener, so
  that it never fires for the superseded run.
\<close>

definition cancel :: "engine \<Rightarrow> engine" where
  "cancel e = e\<lparr>phase := Idle, pending := None\<rparr>"

text \<open>
  Modelled from the spec: \<^verbatim>\<open>start\<close> (4.1, steps 1, 5 and 6, and the edge policy). It
  supersedes a run in flight, emits the \<^verbatim>\<open>before\<close> event, applies the base and from
  classes at once and schedules the swap for the next frame. With no target element it
  is a no-op that still invokes \<^verbatim>\<open>onComplete\<close>.
\<close>

definition start :: "direction \<Rightarrow> engine \<Rightarrow> engine" where
  "start d e =
     (case target e of
        None \<Rightarrow> (cancel e)\<lparr>completions := completions e + 1\<rparr>
      | Some classList \<Rightarrow>
          (cancel e)\<lparr>events := events e @ [before d],
                     phase := running d,
                     target := Some (addClasses (base d (classes e) @ from_classes d (classes e))
                                       classList),
                     pending := Some NextFrame\<rparr>)"

text \<open>Modelled from the spec: the clean-up of step 4 strips every transition class.\<close>

definition strip :: "engine \<Rightarrow> engine" where
  "strip e = e\<lparr>target := map_option (removeClasses (transition_classes (classes e))) (target e)\<rparr>"

text \<open>
  Modelled from the spec: completion (4.1, step 4) strips the classes, invokes
  \<^verbatim>\<open>onComplete\<close>, emits the \<^verbatim>\<open>after\<close> event of the run and sets the phase to idle.
\<close>

definition complete :: "engine \<Rightarrow> engine" where
  "complete e =
     (case phase e of
        Idle \<Rightarrow> e
      | Entering \<Rightarrow> (strip e)\<lparr>events := events e @ [AfterEnter],
                                completions := completions e + 1,
                                phase := Idle, pending := None\<rparr>
      | Leaving \<Rightarrow> (strip e)\<lparr>events := events e @ [AfterLeave],
                               completions := completions e + 1,
                               phase := Idle, pending := None\<rparr>)"

text \<open>
  Modelled from the spec: an entry of the computed style's time lists (already parsed
  to milliseconds) is real when it is not zero (4.1, step 3).
\<close>

definition real_time :: "nat list \<Rightarrow> bool" where
  "real_time durations = list_ex (\<lambda>ms. ms \<noteq> 0) durations"

text \<open>Modelled from the spec: step 2 removes the from classes and adds the to classes.\<close>

definition swap_classes :: "engine \<Rightarrow> engine" where
  "swap_classes e =
     (case phase e of
        Idle \<Rightarrow> e
      | Entering \<Rightarrow>
          e\<lparr>target := map_option (\<lambda>classList. addClasses (enterTo (classes e))
                          (removeClasses (enterFrom (classes e)) classList)) (target e)\<rparr>
      | Leaving \<Rightarrow>
          e\<lparr>target := map_option (\<lambda>classList. addClasses (leaveTo (classes e))
                          (removeClasses (leaveFrom (classes e)) classList)) (target e)\<rparr>)"

text \<open>
  Modelled from the spec: the callback of the next rendering opportunity (4.1, steps 2
  and 3). It runs only for a run that waits for it; it swaps the classes and then
  waits for the completion signal, or completes at once when the computed style has
  no real time.
\<close>

definition next_frame :: "nat list \<Rightarrow> engine \<Rightarrow> engine" where
  "next_frame durations e =
     (case pending e of
        Some NextFrame \<Rightarrow>
          (if real_time durations then (swap_classes e)\<lparr>pending := Some Completion\<rparr>
           else complete (swap_classes e))
      | _ \<Rightarrow> e)"

text \<open>
  Modelled from the spec: the browser's completion signal (4.1, steps 3 and 4) reaches
  the engine only through the listener of a run that waits for it.
\<close>

definition transition_end :: "engine \<Rightarrow> engine" where
  "transition_end e = (case pending e of Some Completion \<Rightarrow> complete e | _ \<Rightarrow> e)"

text \<open>Modelled from the spec: the two kinds of callback the browser delivers (section 5).\<close>

datatype callback = Frame "nat list" | TransitionEnd

fun deliver :: "engine \<Rightarrow> callback \<Rightarrow> engine" where
  "deliver e (Frame durations) = next_frame durations e"
| "deliver e TransitionEnd = transition_end e"

text \<open>
  Modelled from the spec: a full run is a start, the next frame and the completion
  signal, with nothing cancelling it in between.
\<close>

definition full_run :: "direction \<Rightarrow> nat list \<Rightarrow> engine \<Rightarrow> engine" where
  "full_run d durations e = transition_end (next_frame durations (start d e))"

section \<open>The nested transition coordinator\<close>

text \<open>
  Modelled from the spec: the coordinator lives in the transition component, which is
  not among the sources. Section 3 of the spec: a registry from child identity to
  busy, kept in registration order, and the parent's own phase. \<open>mounted\<close> says
  whether the parent's DOM node is present and \<open>fired\<close> counts the calls of the
  parent's deferred completion callback, the one it registers with \<^verbatim>\<open>onAllIdle\<close>.
\<close>

record 'c coordinator =
  registry :: "('c \<times> bool) list"
  own :: phase
  mounted :: bool
  fired :: nat

text \<open>
  Modelled from the spec: the parent is busy iff at least one child entry is busy or
  its own transition state is not idle.
\<close>

definition is_busy :: "'c coordinator \<Rightarrow> bool" where
  "is_busy c = (list_ex snd (registry c) \<or> own c \<noteq> Idle)"

text \<open>Modelled from the spec: the deferred completion callback unmounts the parent.\<close>

definition all_idle :: "'c coordinator \<Rightarrow> 'c coordinator" where
  "all_idle c = c\<lparr>mounted := False, fired := fired c + 1\<rparr>"

text \<open>
  Modelled from the spec: the callback fires when a change takes the subtree from busy
  to idle, once for that change.
\<close>

definition settle :: "'c coordinator \<Rightarrow> 'c coordinator \<Rightarrow> 'c coordinator" where
  "settle old new = (if is_busy old \<and> \<not> is_busy new then all_idle new else new)"

text \<open>Modelled from the spec: \<^verbatim>\<open>register\<close> adds an entry when a child mounts.\<close>

definition register_child :: "'c \<Rightarrow> 'c coordinator \<Rightarrow> 'c coordinator" where
  "register_child childId c =
     (if childId \<in> fst ` set (registry c) then c
      else c\<lparr>registry := registry c @ [(childId, False)]\<rparr>)"

text \<open>Modelled from the spec: the unregister function removes the child's entry.\<close>

definition unregister_child :: "'c \<Rightarrow> 'c coordinator \<Rightarrow> 'c coordinator" where
  "unregister_child childId c =
     settle c (c\<lparr>registry := filter (\<lambda>entry. fst entry \<noteq> childId) (registry c)\<rparr>)"

text \<open>
  Modelled from the spec: \<^verbatim>\<open>notifyBusy\<close> is idempotent, a call with the value the entry
  already holds is a no-op.
\<close>

definition notifyBusy :: "'c \<Rightarrow> bool \<Rightarrow> 'c coordinator \<Rightarrow> 'c coordinator" where
  "notifyBusy childId busy c =
     (case map_of (registry c) childId of
        None \<Rightarrow> c
      | Some current \<Rightarrow>
          if current = busy then c
          else settle c (c\<lparr>registry :=
                 map (\<lambda>entry. if fst entry = childId then (childId, busy) else entry)
                   (registry c)\<rparr>))"

text \<open>Modelled from the spec: the parent's own transition starts and finishes.\<close>

definition own_started :: "direction \<Rightarrow> 'c coordinator \<Rightarrow> 'c coordinator" where
  "own_started d c = c\<lparr>own := running d\<rparr>"

definition own_finished :: "'c coordinator \<Rightarrow> 'c coordinator" where
  "own_finished c = settle c (c\<lparr>own := Idle\<rparr>)"

subsection \<open>A parent and its children leaving\<close>

text \<open>
  Modelled from the spec: the scenario of section 8. A child is its identity and the
  time in milliseconds its leave takes; \<open>p\<close> is the time the parent's own leave takes
  (zero when it has none). The shown parent has every child registered and idle.
\<close>

datatype 'c participant = Own | Child 'c

definition shown :: "('c \<times> nat) list \<Rightarrow> 'c coordinator" where
  "shown children =
     foldl (\<lambda>c child. register_child (fst child) c)
       \<lparr>registry = [], own = Idle, mounted = True, fired = 0\<rparr> children"

text \<open>
  Modelled from the spec: when the parent is told to hide, its own leave starts and
  every child starts to leave and reports busy.
\<close>

definition begin_leave :: "('c \<times> nat) list \<Rightarrow> 'c coordinator" where
  "begin_leave children =
     foldl (\<lambda>c child. notifyBusy (fst child) True c) (own_started Leave (shown children)) children"

text \<open>Modelled from the spec: a leave that completes reports idle.\<close>

fun finished :: "'c coordinator \<Rightarrow> 'c participant \<Rightarrow> 'c coordinator" where
  "finished c Own = own_finished c"
| "finished c (Child childId) = notifyBusy childId False c"

text \<open>
  Modelled from the spec: each leave proceeds on its own completion signal, so the
  completions arrive in the order of the durations.
\<close>

definition schedule :: "nat \<Rightarrow> ('c \<times> nat) list \<Rightarrow> ('c participant \<times> nat) list" where
  "schedule p children =
     sort_key snd ((Own, p) # map (\<lambda>child. (Child (fst child), snd child)) children)"

text \<open>
  Modelled from the spec: the coordinator \<open>t\<close> milliseconds after the parent was told
  to hide, when every completion due by then has been delivered.
\<close>

definition state_at :: "nat \<Rightarrow> ('c \<times> nat) list \<Rightarrow> nat \<Rightarrow> 'c coordinator" where
  "state_at p children t =
     foldl finished (begin_leave children)
       (map fst (filter (\<lambda>due. snd due \<le> t) (schedule p children)))"

section \<open>The focus trap\<close>

text \<open>
  Modelled from the spec: the focus trap (hooks/use-focus-trap and the focus-trap
  component) is not among the sources, only its test and the dialog's call of it are.
  An element carries what the focusable-element query of 4.3 looks at. A container is
  the list of the elements of its subtree in DOM order.
\<close>

datatype tag = Anchor | Button | Input | Select | Textarea | Other

record element =
  name :: string
  tag :: tag
  href :: bool
  tabindex :: "int option"
  disabled :: bool
  display_none :: bool
  zero_box :: bool
  autofocus :: bool

text \<open>
  Modelled from the spec: the standard interactive-element predicate (links with
  href, buttons, inputs, selects, textareas, an explicit tab index that is zero or
  positive).
\<close>

definition interactive :: "element \<Rightarrow> bool" where
  "interactive el =
     ((tag el = Anchor \<and> href el) \<or> tag el = Button \<or> tag el = Input \<or> tag el = Select \<or>
      tag el = Textarea \<or> (case tabindex el of None \<Rightarrow> False | Some i \<Rightarrow> 0 \<le> i))"

text \<open>Modelled from the spec: disabled and visually hidden elements are excluded.\<close>

definition focusable :: "element \<Rightarrow> bool" where
  "focusable el = (interactive el \<and> \<not> disabled el \<and> \<not> display_none el \<and> \<not> zero_box el)"

text \<open>
  Modelled from the spec: the focusable set, in DOM order across the containers, the
  containers in registration order.
\<close>

definition focusable_elements :: "element list list \<Rightarrow> element list" where
  "focusable_elements cs = filter focusable (concat cs)"

text \<open>Modelled from the spec: the element is contained in one of the containers.\<close>

definition in_boundary :: "element list list \<Rightarrow> element \<Rightarrow> bool" where
  "in_boundary cs el = (el \<in> set (concat cs))"

text \<open>Modelled from the spec: the failure of an activation with nothing to focus.\<close>

datatype trap_error = NoFocusableElementError

text \<open>
  Modelled from the spec: the trap's state. \<open>focused\<close> is the browser's focused
  element, \<open>lastValid\<close> the last known valid element inside the boundary.
\<close>

record trap =
  active :: bool
  boundary :: "element list list"
  focused :: "element option"
  previouslyFocusedElement :: "element option"
  lastValid :: "element option"

text \<open>
  Modelled from the spec: the initial focus target is the explicit one, else the first
  focusable element that carries an autofocus marker, else the first focusable element.
\<close>

definition initial_target :: "element list list \<Rightarrow> element option \<Rightarrow> element option" where
  "initial_target cs initialFocusTarget =
     (case initialFocusTarget of
        Some el \<Rightarrow> Some el
      | None \<Rightarrow>
          (case find autofocus (focusable_elements cs) of
             Some el \<Rightarrow> Some el
           | None \<Rightarrow> (case focusable_elements cs of [] \<Rightarrow> None | el # rest \<Rightarrow> Some el)))"

text \<open>
  Modelled from the spec: \<^verbatim>\<open>activate\<close> fails when the focusable set is empty and no
  explicit target was supplied; otherwise it captures the previously focused element
  and focuses the initial target.
\<close>

definition activate :: "element list list \<Rightarrow> element option \<Rightarrow> trap \<Rightarrow> trap_error + trap" where
  "activate cs initialFocusTarget t =
     (if focusable_elements cs = [] \<and> initialFocusTarget = None
      then Inl NoFocusableElementError
      else Inr (t\<lparr>active := True,
                  boundary := cs,
                  previouslyFocusedElement := focused t,
                  focused := initial_target cs initialFocusTarget,
                  lastValid := initial_target cs initialFocusTarget\<rparr>))"

text \<open>
  Modelled from the spec: \<^verbatim>\<open>deactivate\<close> restores the focus if the element is still
  attached to the document, and is a no-op on an inactive trap.
\<close>

definition deactivate :: "(element \<Rightarrow> bool) \<Rightarrow> trap \<Rightarrow> trap" where
  "deactivate attached t =
     (if \<not> active t then t
      else t\<lparr>active := False,
             focused := (case previouslyFocusedElement t of
                           None \<Rightarrow> focused t
                         | Some el \<Rightarrow> if attached el then Some el else focused t)\<rparr>)"

text \<open>Modelled from the spec: the element after \<open>cur\<close> in the tab order, if any.\<close>

fun following :: "element list \<Rightarrow> element \<Rightarrow> element option" where
  "following [] cur = None"
| "following [x] cur = None"
| "following (x # y # rest) cur = (if x = cur then Some y else following (y # rest) cur)"

text \<open>
  Modelled from the spec: the tab-cycling algorithm. Focus moves to the next focusable
  element and wraps to the first when there is no next one in the boundary.
\<close>

definition wrap_next :: "element list \<Rightarrow> element option \<Rightarrow> element option" where
  "wrap_next order cur =
     (case order of
        [] \<Rightarrow> cur
      | first # rest \<Rightarrow>
          (case cur of
             None \<Rightarrow> Some first
           | Some el \<Rightarrow> (case following order el of None \<Rightarrow> Some first | Some n \<Rightarrow> Some n)))"

text \<open>
  Modelled from the spec: what can move the focus while a trap is mounted, a focus
  change from outside the trap's own logic and the two tab keys.
\<close>

datatype focus_event = FocusMoved element | TabForward | TabBackward

text \<open>
  Modelled from the spec: the re-focus guard. A focus change that lands inside the
  boundary is accepted and remembered; one that lands outside is reverted to the last
  valid element.
\<close>

definition focus_guard :: "element \<Rightarrow> trap \<Rightarrow> trap" where
  "focus_guard el t =
     (if in_boundary (boundary t) el then t\<lparr>focused := Some el, lastValid := Some el\<rparr>
      else t\<lparr>focused := lastValid t\<rparr>)"

text \<open>Modelled from the spec: forward tab, and backward tab on the reversed order.\<close>

definition tab :: "bool \<Rightarrow> trap \<Rightarrow> trap" where
  "tab backward t =
     (let order = (if backward then rev (focusable_elements (boundary t))
                   else focusable_elements (boundary t));
          landed = wrap_next order (focused t)
      in t\<lparr>focused := landed, lastValid := landed\<rparr>)"

text \<open>
  Modelled from the spec: what a trap does with a focus change from outside (a call of
  \<^verbatim>\<open>focus()\<close>, a click) and with the tab keys. An inactive trap leaves the browser alone.
\<close>

fun handle :: "trap \<Rightarrow> focus_event \<Rightarrow> trap" where
  "handle t (FocusMoved el) = (if active t then focus_guard el t else t\<lparr>focused := Some el\<rparr>)"
| "handle t TabForward = (if active t then tab False t else t)"
| "handle t TabBackward = (if active t then tab True t else t)"

text \<open>Fixtures of the focus-trap test: a plain button, and a trap that is not active.\<close>

definition btn :: "string \<Rightarrow> element" where
  "btn n = \<lparr>name = n, tag = Button, href = False, tabindex = None, disabled = False,
            display_none = False, zero_box = False, autofocus = False\<rparr>"

definition inactive :: "element option \<Rightarrow> trap" where
  "inactive f = \<lparr>active = False, boundary = [], focused = f,
                 previouslyFocusedElement = None, lastValid = None\<rparr>"

section \<open>Notions used in the proofs\<close>

text \<open>A coordinator whose registry follows the children, with \<open>g\<close> giving the busy flags.\<close>

definition tracked ::
  "('c \<times> nat) list \<Rightarrow> ('c \<Rightarrow> bool) \<Rightarrow> phase \<Rightarrow> bool \<Rightarrow> nat \<Rightarrow> 'c coordinator" where
  "tracked children g ph m f =
     \<lparr>registry = map (\<lambda>child. (fst child, g (fst child))) children,
      own = ph, mounted = m, fired = f\<rparr>"

text \<open>The participants of a leave: the parent itself and its children.\<close>

definition parts :: "('c \<times> nat) list \<Rightarrow> 'c participant set" where
  "parts children = insert Own (Child ` fst ` set children)"

text \<open>The coordinator when exactly the participants in \<open>S\<close> have finished to leave.\<close>

definition leaving ::
  "('c \<times> nat) list \<Rightarrow> 'c participant set \<Rightarrow> bool \<Rightarrow> nat \<Rightarrow> 'c coordinator" where
  "leaving children S m f =
     tracked children (\<lambda>k. Child k \<notin> S) (if Own \<in> S then Idle else Leaving) m f"

section \<open>Lemmas about the helpers\<close>

lemma indexOf_ge: "indexOf xs v \<ge> -1"
  by (induction xs) (auto simp: Let_def)

lemma indexOf_notin: "indexOf xs v = -1 \<longleftrightarrow> v \<notin> set xs"
proof (induction xs)
  case Nil
  then show ?case by simp
next
  case (Cons x xs)
  have "indexOf xs v \<ge> -1" by (rule indexOf_ge)
  then have "indexOf xs v + 1 \<noteq> -1" by linarith
  with Cons show ?case by (auto simp: Let_def)
qed

lemma unregister_remove1: "unregister v xs = remove1 v xs"
proof (induction xs)
  case Nil
  then show ?case by (simp add: unregister_def splice1_def)
next
  case (Cons x xs)
  show ?case
  proof (cases "x = v")
    case True
    then show ?thesis by (simp add: unregister_def splice1_def)
  next
    case False
    have ge: "indexOf xs v \<ge> -1" by (rule indexOf_ge)
    show ?thesis
    proof (cases "indexOf xs v = -1")
      case True
      with False Cons show ?thesis by (simp add: unregister_def splice1_def Let_def)
    next
      case present: False
      with ge have pos: "indexOf xs v \<ge> 0" by linarith
      then have n: "nat (indexOf xs v + 1) = Suc (nat (indexOf xs v))" by linarith
      from pos have ne: "indexOf xs v + 1 \<noteq> -1" by linarith
      have "unregister v (x # xs) = splice1 (nat (indexOf xs v + 1)) (x # xs)"
        using False present ne by (simp add: unregister_def Let_def)
      also have "\<dots> = x # splice1 (nat (indexOf xs v)) xs"
        by (simp add: n splice1_def)
      also have "splice1 (nat (indexOf xs v)) xs = unregister v xs"
        using present by (simp add: unregister_def Let_def)
      finally show ?thesis using Cons False by simp
    qed
  qed
qed

lemma unregister_absent: "v \<notin> set xs \<Longrightarrow> unregister v xs = xs"
  by (simp add: unregister_def indexOf_notin)

lemma register_all: "foldl (\<lambda>l v. register v l) acc vs = acc @ vs"
  by (induction vs arbitrary: acc) (simp_all add: register_def)

lemma remove1_once_gone: "count_list xs v \<le> 1 \<Longrightarrow> v \<notin> set (remove1 v xs)"
proof (induction xs)
  case Nil
  then show ?case by simp
next
  case (Cons x xs)
  show ?case
  proof (cases "x = v")
    case True
    with Cons.prems have "count_list xs v = 0" by simp
    then have "v \<notin> set xs" by (simp add: count_list_0_iff)
    with True show ?thesis by simp
  next
    case False
    with Cons show ?thesis by simp
  qed
qed

section \<open>Claims about the label registry\<close>

text \<open>
  C10 (as amended). The computed label id is undefined exactly when the registry is
  empty, and otherwise is the registered ids joined by single spaces, in registration
  order (registering \<open>vs\<close> one after the other on an empty registry gives \<open>vs\<close>). The
  unregister closure removes one entry, the first that equals its id, and nothing
  else. Invoked when its id is not in the registry it leaves the registry unchanged;
  a second invocation is such a no-op whenever the id was registered at most once.
\<close>

theorem useLabels_registry:
  "(labelledby ls = None \<longleftrightarrow> ls = []) \<and>
   (ls \<noteq> [] \<longrightarrow> labelledby ls = Some (join '' '' ls)) \<and>
   foldl (\<lambda>l v. register v l) [] vs = vs \<and>
   unregister v ls = remove1 v ls \<and>
   (v \<notin> set ls \<longrightarrow> unregister v (register v ls) = ls) \<and>
   (v \<notin> set ls \<longrightarrow> unregister v ls = ls) \<and>
   (count_list ls v \<le> 1 \<longrightarrow> unregister v (unregister v ls) = unregister v ls)"
proof -
  have a: "labelledby ls = None \<longleftrightarrow> ls = []"
    by (simp add: labelledby_def)
  have b: "ls \<noteq> [] \<longrightarrow> labelledby ls = Some (join '' '' ls)"
    by (simp add: labelledby_def)
  have c: "foldl (\<lambda>l v. register v l) [] vs = vs"
    by (simp add: register_all)
  have d: "unregister v ls = remove1 v ls"
    by (rule unregister_remove1)
  have e: "v \<notin> set ls \<longrightarrow> unregister v (register v ls) = ls"
    by (simp add: unregister_remove1 register_def remove1_append)
  have f: "v \<notin> set ls \<longrightarrow> unregister v ls = ls"
    by (simp add: unregister_absent)
  have g: "count_list ls v \<le> 1 \<longrightarrow> unregister v (unregister v ls) = unregister v ls"
  proof
    assume "count_list ls v \<le> 1"
    then have "v \<notin> set (unregister v ls)"
      by (simp add: unregister_remove1 remove1_once_gone)
    then show "unregister v (unregister v ls) = unregister v ls"
      by (rule unregister_absent)
  qed
  from a b c d e f g show ?thesis by blast
qed

theorem useLabels_registry_witness:
  "labelledby [''l0'', ''l1'', ''l2''] = Some ''l0 l1 l2'' \<and>
   unregister ''l1'' [''l0'', ''l1'', ''l2''] = [''l0'', ''l2''] \<and>
   unregister ''l1'' (unregister ''l1'' [''l0'', ''l1'', ''l2''])
     = unregister ''l1'' [''l0'', ''l1'', ''l2''] \<and>
   unregister ''l3'' [''l0'', ''l1'', ''l2''] = [''l0'', ''l1'', ''l2'']"
proof -
  note t = useLabels_registry [of "[''l0'', ''l1'', ''l2'']" "[]" "''l1''"]
  note u = useLabels_registry [of "[''l0'', ''l1'', ''l2'']" "[]" "''l3''"]
  have once: "count_list [''l0'', ''l1'', ''l2''] ''l1'' \<le> 1" by simp
  have fresh: "''l3'' \<notin> set [''l0'', ''l1'', ''l2'']" by simp
  from t have "labelledby [''l0'', ''l1'', ''l2''] = Some ''l0 l1 l2''" by simp
  moreover from t have "unregister ''l1'' [''l0'', ''l1'', ''l2''] = [''l0'', ''l2'']" by simp
  moreover from t once have "unregister ''l1'' (unregister ''l1'' [''l0'', ''l1'', ''l2''])
     = unregister ''l1'' [''l0'', ''l1'', ''l2'']" by blast
  moreover from u fresh have "unregister ''l3'' [''l0'', ''l1'', ''l2''] = [''l0'', ''l1'', ''l2'']"
    by blast
  ultimately show ?thesis by blast
qed

text \<open>
  C10 as stated fails when one id is registered twice: the second call of the first
  registration's unregister closure removes the entry of the other registration.
\<close>

theorem unregister_twice_counterexample:
  "register ''a'' (register ''a'' []) = [''a'', ''a''] \<and>
   unregister ''a'' (register ''a'' (register ''a'' [])) = [''a''] \<and>
   unregister ''a'' (unregister ''a'' (register ''a'' (register ''a'' []))) = [] \<and>
   unregister ''a'' (unregister ''a'' (register ''a'' (register ''a'' [])))
     \<noteq> unregister ''a'' (register ''a'' (register ''a'' []))"
  by (simp add: unregister_def register_def splice1_def)

section \<open>Claims about the dialog\<close>

text \<open>
  C6. An Escape keydown makes a dialog emit \<^verbatim>\<open>close\<close> only when the dialog is open and
  is the topmost stacked region, that is, when its container set holds no element
  besides its own; any other keydown leaves the dialog as it is, and a closed dialog
  never reacts. With two nested open dialogs, the inner one registered in the outer
  one's stack, Escape makes the inner dialog emit \<^verbatim>\<open>close\<close> and leaves the outer dialog
  and the event untouched when it is delivered there.
\<close>

theorem escape_closes_only_topmost:
  "fst (handleKeyDown d ev) =
     (if key ev = Keys_Escape \<and> dialogState d = Open \<and> length (containers d) \<le> 1
      then close d else d) \<and>
   (emitted (fst (handleKeyDown d ev)) \<noteq> emitted d \<longleftrightarrow>
      key ev = Keys_Escape \<and> dialogState d = Open \<and> length (containers d) \<le> 1) \<and>
   (dialogState d = Closed \<longrightarrow> handleKeyDown d ev = (d, ev)) \<and>
   (outer_el \<noteq> inner_el \<and> key ev = Keys_Escape \<longrightarrow>
      (\<exists>outer0 inner0 outer inner.
         dialog_setup (JBool True) = Inr outer0 \<and> dialog_setup (JBool True) = Inr inner0 \<and>
         notify AddElement inner_el (inner0 # notify AddElement outer_el [outer0]) = [inner, outer] \<and>
         containers inner = [inner_el] \<and> containers outer = [outer_el, inner_el] \<and>
         emitted (fst (handleKeyDown inner ev)) = [False] \<and>
         handleKeyDown outer ev = (outer, ev)))"
proof -
  have a: "fst (handleKeyDown d ev) =
     (if key ev = Keys_Escape \<and> dialogState d = Open \<and> length (containers d) \<le> 1
      then close d else d)"
    by (auto simp: handleKeyDown_def)
  have b: "emitted (fst (handleKeyDown d ev)) \<noteq> emitted d \<longleftrightarrow>
      key ev = Keys_Escape \<and> dialogState d = Open \<and> length (containers d) \<le> 1"
    unfolding a by (simp add: close_def)
  have c: "dialogState d = Closed \<longrightarrow> handleKeyDown d ev = (d, ev)"
    by (simp add: handleKeyDown_def)
  have e: "outer_el \<noteq> inner_el \<and> key ev = Keys_Escape \<longrightarrow>
      (\<exists>outer0 inner0 outer inner.
         dialog_setup (JBool True) = Inr outer0 \<and> dialog_setup (JBool True) = Inr inner0 \<and>
         notify AddElement inner_el (inner0 # notify AddElement outer_el [outer0]) = [inner, outer] \<and>
         containers inner = [inner_el] \<and> containers outer = [outer_el, inner_el] \<and>
         emitted (fst (handleKeyDown inner ev)) = [False] \<and>
         handleKeyDown outer ev = (outer, ev))"
    by (simp add: dialog_setup_def Missing_def notify_def onStackUpdate_def set_add_def
        handleKeyDown_def dialogState_def close_def)
  from a b c e show ?thesis by blast
qed

text \<open>The nested scenario of C6 at concrete dialogs, and a closed dialog.\<close>

theorem escape_closes_only_topmost_witness:
  "emitted (fst (handleKeyDown
      \<lparr>open_prop = True, containers = [''inner''], enabled = True, titleId = None, emitted = []\<rparr>
      \<lparr>key = ''Escape'', defaultPrevented = False, propagationStopped = False\<rparr>)) = [False] \<and>
   emitted (fst (handleKeyDown
      \<lparr>open_prop = True, containers = [''outer'', ''inner''], enabled = True, titleId = None,
        emitted = []\<rparr>
      \<lparr>key = ''Escape'', defaultPrevented = False, propagationStopped = False\<rparr>)) = [] \<and>
   emitted (fst (handleKeyDown
      \<lparr>open_prop = False, containers = [''inner''], enabled = False, titleId = None, emitted = []\<rparr>
      \<lparr>key = ''Escape'', defaultPrevented = False, propagationStopped = False\<rparr>)) = []"
  using escape_closes_only_topmost
     [of "\<lparr>open_prop = True, containers = [''inner''], enabled = True, titleId = None, emitted = []\<rparr>"
         "\<lparr>key = ''Escape'', defaultPrevented = False, propagationStopped = False\<rparr>"
         "''outer''" "''inner''"]
    escape_closes_only_topmost
     [of "\<lparr>open_prop = True, containers = [''outer'', ''inner''], enabled = True, titleId = None,
            emitted = []\<rparr>"
         "\<lparr>key = ''Escape'', defaultPrevented = False, propagationStopped = False\<rparr>"
         "''outer''" "''inner''"]
    escape_closes_only_topmost
     [of "\<lparr>open_prop = False, containers = [''inner''], enabled = False, titleId = None, emitted = []\<rparr>"
         "\<lparr>key = ''Escape'', defaultPrevented = False, propagationStopped = False\<rparr>"
         "''outer''" "''inner''"]
  by (simp add: Keys_Escape_def dialogState_def close_def)

text \<open>
  C7. The \<^verbatim>\<open>mousedown\<close> handler emits \<^verbatim>\<open>close\<close> iff the dialog is open, exactly one
  container is registered and that container does not contain the event target; with
  zero or with two or more containers, or with a target inside a registered
  container, or when the dialog is closed, the handler changes nothing and schedules
  no focus.
\<close>

theorem outside_click_closes:
  "fst (handleMouseDown nc d t) =
     (if dialogState d = Open \<and> (\<exists>c. containers d = [c] \<and> \<not> nc c t) then close d else d) \<and>
   (emitted (fst (handleMouseDown nc d t)) \<noteq> emitted d \<longleftrightarrow>
      dialogState d = Open \<and> length (containers d) = 1 \<and> \<not> contains nc (containers d) t) \<and>
   (length (containers d) \<noteq> 1 \<longrightarrow> handleMouseDown nc d t = (d, None)) \<and>
   (contains nc (containers d) t \<longrightarrow> handleMouseDown nc d t = (d, None)) \<and>
   (dialogState d \<noteq> Open \<longrightarrow> handleMouseDown nc d t = (d, None))"
proof -
  have b: "fst (handleMouseDown nc d t) =
     (if dialogState d = Open \<and> length (containers d) = 1 \<and> \<not> contains nc (containers d) t
      then close d else d)"
    by (simp add: handleMouseDown_def)
  have eq: "(length (containers d) = 1 \<and> \<not> contains nc (containers d) t)
      \<longleftrightarrow> (\<exists>c. containers d = [c] \<and> \<not> nc c t)"
  proof (cases "containers d")
    case Nil
    then show ?thesis by simp
  next
    case (Cons c cs)
    then show ?thesis by (cases cs) auto
  qed
  have a: "fst (handleMouseDown nc d t) =
     (if dialogState d = Open \<and> (\<exists>c. containers d = [c] \<and> \<not> nc c t) then close d else d)"
    unfolding b using eq by simp
  have c: "emitted (fst (handleMouseDown nc d t)) \<noteq> emitted d \<longleftrightarrow>
      dialogState d = Open \<and> length (containers d) = 1 \<and> \<not> contains nc (containers d) t"
    unfolding b by (simp add: close_def)
  have e: "length (containers d) \<noteq> 1 \<longrightarrow> handleMouseDown nc d t = (d, None)"
    by (simp add: handleMouseDown_def)
  have f: "contains nc (containers d) t \<longrightarrow> handleMouseDown nc d t = (d, None)"
    by (simp add: handleMouseDown_def)
  have g: "dialogState d \<noteq> Open \<longrightarrow> handleMouseDown nc d t = (d, None)"
    by (simp add: handleMouseDown_def)
  from a c e f g show ?thesis by blast
qed

text \<open>C7 at a dialog with the one container \<open>panel\<close> and a click on \<open>page\<close>.\<close>

theorem outside_click_closes_witness:
  "emitted (fst (handleMouseDown (=)
      \<lparr>open_prop = True, containers = [''panel''], enabled = True, titleId = None, emitted = []\<rparr>
      ''page'')) = [False] \<and>
   emitted (fst (handleMouseDown (=)
      \<lparr>open_prop = True, containers = [''panel''], enabled = True, titleId = None, emitted = []\<rparr>
      ''panel'')) = [] \<and>
   emitted (fst (handleMouseDown (=)
      \<lparr>open_prop = True, containers = [''panel'', ''nested''], enabled = True, titleId = None,
        emitted = []\<rparr>
      ''page'')) = []"
  using outside_click_closes
     [of "(=)" "\<lparr>open_prop = True, containers = [''panel''], enabled = True, titleId = None,
                  emitted = []\<rparr>" "''page''"]
    outside_click_closes
     [of "(=)" "\<lparr>open_prop = True, containers = [''panel''], enabled = True, titleId = None,
                  emitted = []\<rparr>" "''panel''"]
    outside_click_closes
     [of "(=)" "\<lparr>open_prop = True, containers = [''panel'', ''nested''], enabled = True,
                  titleId = None, emitted = []\<rparr>" "''page''"]
  by (simp add: dialogState_def close_def)


text \<open>
  C8. The setup of a dialog throws exactly when the \<^verbatim>\<open>open\<close> value it sees is not a
  boolean, and it throws before it creates any state. When the prop was not passed
  (the value is the default \<open>Missing\<close>) it throws the "forgot" error; for any other
  string, and for a value of another type that converts to a string, it throws the
  "not a boolean" error with the value it received; a value whose conversion to a
  string throws makes setup throw that error. With a boolean it does not throw and
  creates the state of a dialog that is open iff the value is true.
\<close>

theorem dialog_setup_open_validation:
  "(isl (dialog_setup v :: error + 'e dialog) \<longleftrightarrow> (\<forall>b. v \<noteq> JBool b)) \<and>
   (dialog_setup Missing :: error + 'e dialog) =
      Inl (Error ''You forgot to provide an `open` prop to the `Dialog`.'') \<and>
   (JString s \<noteq> Missing \<longrightarrow>
      (dialog_setup (JString s) :: error + 'e dialog) =
        Inl (Error (''You provided an `open` prop to the `Dialog`, but the value is not a boolean. Received: ''
                    @ s))) \<and>
   (dialog_setup (JOther ty (Inr received)) :: error + 'e dialog) =
        Inl (Error (''You provided an `open` prop to the `Dialog`, but the value is not a boolean. Received: ''
                    @ received)) \<and>
   (dialog_setup (JOther ty (Inl thrown)) :: error + 'e dialog) = Inl thrown \<and>
   (\<exists>d :: 'e dialog. dialog_setup (JBool b) = Inr d \<and> open_prop d = b \<and>
        dialogState d = (if b then Open else Closed) \<and> containers d = [] \<and> emitted d = [])"
proof -
  have other: "typeof (JOther kind r) \<noteq> ''boolean''" for kind r
    by (cases kind) simp_all
  have a: "isl (dialog_setup v :: error + 'e dialog) \<longleftrightarrow> (\<forall>b. v \<noteq> JBool b)"
  proof (cases v)
    case (JBool b)
    then show ?thesis by (simp add: dialog_setup_def Missing_def)
  next
    case (JString s)
    then show ?thesis by (simp add: dialog_setup_def Let_def)
  next
    case (JOther ty r)
    then show ?thesis
      by (cases r) (simp_all add: dialog_setup_def Missing_def Let_def other)
  qed
  have b: "(dialog_setup Missing :: error + 'e dialog) =
      Inl (Error ''You forgot to provide an `open` prop to the `Dialog`.'')"
    by (simp add: dialog_setup_def)
  have c: "JString s \<noteq> Missing \<longrightarrow>
      (dialog_setup (JString s) :: error + 'e dialog) =
        Inl (Error (''You provided an `open` prop to the `Dialog`, but the value is not a boolean. Received: ''
                    @ s))"
    by (simp add: dialog_setup_def)
  have d: "(dialog_setup (JOther ty (Inr received)) :: error + 'e dialog) =
        Inl (Error (''You provided an `open` prop to the `Dialog`, but the value is not a boolean. Received: ''
                    @ received))"
    by (simp add: dialog_setup_def Missing_def other)
  have e: "(dialog_setup (JOther ty (Inl thrown)) :: error + 'e dialog) = Inl thrown"
    by (simp add: dialog_setup_def Missing_def other)
  have f: "\<exists>d :: 'e dialog. dialog_setup (JBool b) = Inr d \<and> open_prop d = b \<and>
        dialogState d = (if b then Open else Closed) \<and> containers d = [] \<and> emitted d = []"
    by (simp add: dialog_setup_def Missing_def dialogState_def)
  from a b c d e f show ?thesis by blast
qed

text \<open>
  C8 at a string, at the missing prop, at the number \<^verbatim>\<open>1e21\<close> as the engine prints it,
  and at \<^verbatim>\<open>false\<close>.
\<close>

theorem dialog_setup_open_validation_witness:
  "(dialog_setup (JString ''yes'') :: error + string dialog) =
      Inl (Error ''You provided an `open` prop to the `Dialog`, but the value is not a boolean. Received: yes'') \<and>
   isl (dialog_setup Missing :: error + string dialog) \<and>
   (dialog_setup (JOther TNumber (Inr ''1e+21'')) :: error + string dialog) =
      Inl (Error ''You provided an `open` prop to the `Dialog`, but the value is not a boolean. Received: 1e+21'') \<and>
   \<not> isl (dialog_setup (JBool False) :: error + string dialog)"
proof -
  have str: "JString ''yes'' \<noteq> Missing" by (simp add: Missing_def)
  have mis: "\<forall>b. Missing \<noteq> JBool b" by (simp add: Missing_def)
  from dialog_setup_open_validation [of "JString ''yes''" "''yes''"] str
  have "(dialog_setup (JString ''yes'') :: error + string dialog) =
      Inl (Error (''You provided an `open` prop to the `Dialog`, but the value is not a boolean. Received: ''
                    @ ''yes''))" by blast
  then have a: "(dialog_setup (JString ''yes'') :: error + string dialog) =
      Inl (Error ''You provided an `open` prop to the `Dialog`, but the value is not a boolean. Received: yes'')"
    by simp
  from dialog_setup_open_validation [of Missing] mis
  have b: "isl (dialog_setup Missing :: error + string dialog)" by blast
  from dialog_setup_open_validation [of Missing "[]" TNumber "''1e+21''"]
  have "(dialog_setup (JOther TNumber (Inr ''1e+21'')) :: error + string dialog) =
      Inl (Error (''You provided an `open` prop to the `Dialog`, but the value is not a boolean. Received: ''
                    @ ''1e+21''))" by blast
  then have c: "(dialog_setup (JOther TNumber (Inr ''1e+21'')) :: error + string dialog) =
      Inl (Error ''You provided an `open` prop to the `Dialog`, but the value is not a boolean. Received: 1e+21'')"
    by simp
  from dialog_setup_open_validation [of "JBool False"]
  have d: "\<not> isl (dialog_setup (JBool False) :: error + string dialog)" by blast
  from a b c d show ?thesis by blast
qed

text \<open>
  C9 (as amended). When the scroll-lock effect runs for an open dialog,
  \<^verbatim>\<open>style.overflow\<close> reads \<^verbatim>\<open>hidden\<close> and, when the measured scrollbar width is not
  negative, \<^verbatim>\<open>style.paddingRight\<close> reads that width in pixels (a negative width leaves
  it as it was); no declaration other than \<^verbatim>\<open>overflow-x\<close>, \<^verbatim>\<open>overflow-y\<close> and
  \<^verbatim>\<open>padding-right\<close> is touched. When the dialog leaves the open state (the effect runs
  again) or unmounts (the effect stops), \<^verbatim>\<open>style.overflow\<close> and \<^verbatim>\<open>style.paddingRight\<close>
  read what they read before the effect ran, whatever the style is by then, and
  every declaration other than the three keeps the value it has then. If the two
  overflow longhands were both declared or both undeclared before, and nothing else
  touched the style in between, the whole style is as before. For a closed dialog the
  effect changes nothing.
\<close>

theorem scroll_lock_frame:
  "get_overflow (fst (watch_run Open (doc0, None))) = One ''hidden'' \<and>
   (sint (clientWidth doc0) \<le> sint (innerWidth doc0) \<longrightarrow>
      get_paddingRight (fst (watch_run Open (doc0, None)))
        = decimal (nat (sint (innerWidth doc0) - sint (clientWidth doc0))) @ ''px'') \<and>
   (sint (innerWidth doc0) < sint (clientWidth doc0) \<longrightarrow>
      get_paddingRight (fst (watch_run Open (doc0, None))) = get_paddingRight doc0) \<and>
   (\<forall>p. p \<noteq> ''overflow-x'' \<and> p \<noteq> ''overflow-y'' \<and> p \<noteq> ''padding-right'' \<longrightarrow>
        style (fst (watch_run Open (doc0, None))) p = style doc0 p) \<and>
   get_overflow (fst (watch_run Closed (now, snd (watch_run Open (doc0, None)))))
     = get_overflow doc0 \<and>
   get_paddingRight (fst (watch_run Closed (now, snd (watch_run Open (doc0, None)))))
     = get_paddingRight doc0 \<and>
   (\<forall>p. p \<noteq> ''overflow-x'' \<and> p \<noteq> ''overflow-y'' \<and> p \<noteq> ''padding-right'' \<longrightarrow>
        style (fst (watch_run Closed (now, snd (watch_run Open (doc0, None))))) p = style now p) \<and>
   get_overflow (fst (watch_stop (now, snd (watch_run Open (doc0, None))))) = get_overflow doc0 \<and>
   get_paddingRight (fst (watch_stop (now, snd (watch_run Open (doc0, None)))))
     = get_paddingRight doc0 \<and>
   (\<forall>p. p \<noteq> ''overflow-x'' \<and> p \<noteq> ''overflow-y'' \<and> p \<noteq> ''padding-right'' \<longrightarrow>
        style (fst (watch_stop (now, snd (watch_run Open (doc0, None))))) p = style now p) \<and>
   ((style doc0 ''overflow-x'' = [] \<longleftrightarrow> style doc0 ''overflow-y'' = []) \<longrightarrow>
      style (fst (watch_run Closed (watch_run Open (doc0, None)))) = style doc0 \<and>
      style (fst (watch_stop (watch_run Open (doc0, None)))) = style doc0) \<and>
   watch_run Closed (doc0, None) = (doc0, None)"
proof -
  let ?w = "sint (innerWidth doc0) - sint (clientWidth doc0)"
  let ?opened = "set_paddingRight (Pixels ?w) (set_overflow (One ''hidden'') doc0)"
  have run: "watch_run Open (doc0, None) = (?opened, Some (get_overflow doc0, get_paddingRight doc0))"
    by (simp add: watch_run_def scrollLock_def Let_def)
  have closed: "fst (watch_run Closed (d, Some (ov, pr))) = set_paddingRight (ReadBack pr) (set_overflow ov d)"
    for d ov pr
    by (simp add: watch_run_def scrollLock_def)
  have stopped: "fst (watch_stop (d, Some (ov, pr))) = set_paddingRight (ReadBack pr) (set_overflow ov d)"
    for d ov pr
    by (simp add: watch_stop_def)
  have restore_ov: "get_overflow (set_paddingRight (ReadBack pr) (set_overflow (get_overflow doc0) d))
      = get_overflow doc0" for d pr
    by (cases "get_overflow doc0")
      (auto simp: get_overflow_def set_paddingRight_def Let_def split: if_splits)
  have restore_pr: "get_paddingRight (set_paddingRight (ReadBack pr) (set_overflow ov d)) = pr"
    for d ov pr
    by (cases ov) (simp_all add: get_paddingRight_def set_paddingRight_def)
  have restore_frame: "\<forall>p. p \<noteq> ''overflow-x'' \<and> p \<noteq> ''overflow-y'' \<and> p \<noteq> ''padding-right'' \<longrightarrow>
      style (set_paddingRight v (set_overflow ov d)) p = style d p" for d ov v
    by (cases ov; cases v) (simp_all add: set_paddingRight_def)
  have a: "get_overflow (fst (watch_run Open (doc0, None))) = One ''hidden''"
    unfolding run by (cases "?w < 0") (simp_all add: get_overflow_def set_paddingRight_def)
  have b: "sint (clientWidth doc0) \<le> sint (innerWidth doc0) \<longrightarrow>
      get_paddingRight (fst (watch_run Open (doc0, None))) = decimal (nat ?w) @ ''px''"
    unfolding run by (simp add: get_paddingRight_def set_paddingRight_def)
  have c: "sint (innerWidth doc0) < sint (clientWidth doc0) \<longrightarrow>
      get_paddingRight (fst (watch_run Open (doc0, None))) = get_paddingRight doc0"
    unfolding run by (simp add: get_paddingRight_def set_paddingRight_def)
  have d: "\<forall>p. p \<noteq> ''overflow-x'' \<and> p \<noteq> ''overflow-y'' \<and> p \<noteq> ''padding-right'' \<longrightarrow>
        style (fst (watch_run Open (doc0, None))) p = style doc0 p"
    unfolding run using restore_frame [of "Pixels ?w" "One ''hidden''" doc0] by simp
  have e1: "get_overflow (fst (watch_run Closed (now, snd (watch_run Open (doc0, None)))))
     = get_overflow doc0"
    unfolding run by (simp add: closed restore_ov)
  have e2: "get_paddingRight (fst (watch_run Closed (now, snd (watch_run Open (doc0, None)))))
     = get_paddingRight doc0"
    unfolding run by (simp add: closed restore_pr)
  have e3: "\<forall>p. p \<noteq> ''overflow-x'' \<and> p \<noteq> ''overflow-y'' \<and> p \<noteq> ''padding-right'' \<longrightarrow>
        style (fst (watch_run Closed (now, snd (watch_run Open (doc0, None))))) p = style now p"
    unfolding run using restore_frame [of "ReadBack (get_paddingRight doc0)" "get_overflow doc0" now]
    by (simp add: closed)
  have f1: "get_overflow (fst (watch_stop (now, snd (watch_run Open (doc0, None))))) = get_overflow doc0"
    unfolding run by (simp add: stopped restore_ov)
  have f2: "get_paddingRight (fst (watch_stop (now, snd (watch_run Open (doc0, None)))))
     = get_paddingRight doc0"
    unfolding run by (simp add: stopped restore_pr)
  have f3: "\<forall>p. p \<noteq> ''overflow-x'' \<and> p \<noteq> ''overflow-y'' \<and> p \<noteq> ''padding-right'' \<longrightarrow>
        style (fst (watch_stop (now, snd (watch_run Open (doc0, None))))) p = style now p"
    unfolding run using restore_frame [of "ReadBack (get_paddingRight doc0)" "get_overflow doc0" now]
    by (simp add: stopped)
  have whole: "style (set_paddingRight (ReadBack (get_paddingRight doc0))
        (set_overflow (get_overflow doc0) ?opened)) = style doc0"
    if both: "style doc0 ''overflow-x'' = [] \<longleftrightarrow> style doc0 ''overflow-y'' = []"
  proof (rule ext)
    fix p
    show "style (set_paddingRight (ReadBack (get_paddingRight doc0))
        (set_overflow (get_overflow doc0) ?opened)) p = style doc0 p"
      using both
      by (cases "?w < 0")
        (auto simp: get_overflow_def get_paddingRight_def set_paddingRight_def Let_def)
  qed
  have g: "(style doc0 ''overflow-x'' = [] \<longleftrightarrow> style doc0 ''overflow-y'' = []) \<longrightarrow>
      style (fst (watch_run Closed (watch_run Open (doc0, None)))) = style doc0 \<and>
      style (fst (watch_stop (watch_run Open (doc0, None)))) = style doc0"
    unfolding run using whole by (simp add: closed stopped)
  have h: "watch_run Closed (doc0, None) = (doc0, None)"
    by (simp add: watch_run_def scrollLock_def)
  from a b c d e1 e2 e3 f1 f2 f3 g h show ?thesis by blast
qed

text \<open>
  C9 at a document with \<^verbatim>\<open>overflow: auto\<close> and a scrollbar of 15 pixels: the padding
  while open, and the whole style after the dialog has closed.
\<close>

theorem scroll_lock_frame_witness:
  "get_paddingRight (fst (watch_run Open
      (\<lparr>style = (\<lambda>p. [])(''overflow-x'' := ''auto'', ''overflow-y'' := ''auto''),
        innerWidth = 1024, clientWidth = 1009\<rparr>, None))) = ''15px'' \<and>
   style (fst (watch_run Closed (watch_run Open
      (\<lparr>style = (\<lambda>p. [])(''overflow-x'' := ''auto'', ''overflow-y'' := ''auto''),
        innerWidth = 1024, clientWidth = 1009\<rparr>, None))))
     = (\<lambda>p. [])(''overflow-x'' := ''auto'', ''overflow-y'' := ''auto'')"
proof -
  let ?doc = "\<lparr>style = (\<lambda>p. [])(''overflow-x'' := ''auto'', ''overflow-y'' := ''auto''),
        innerWidth = 1024 :: 32 word, clientWidth = 1009 :: 32 word\<rparr>"
  have wide: "sint (clientWidth ?doc) \<le> sint (innerWidth ?doc)" by simp
  have both: "style ?doc ''overflow-x'' = [] \<longleftrightarrow> style ?doc ''overflow-y'' = []" by simp
  have px: "decimal (nat (sint (innerWidth ?doc) - sint (clientWidth ?doc))) @ ''px'' = ''15px''"
    by (simp add: decimal.simps digit_def)
  from scroll_lock_frame [of ?doc ?doc] wide
  have "get_paddingRight (fst (watch_run Open (?doc, None)))
      = decimal (nat (sint (innerWidth ?doc) - sint (clientWidth ?doc))) @ ''px''" by blast
  with px have a: "get_paddingRight (fst (watch_run Open (?doc, None))) = ''15px''" by simp
  from scroll_lock_frame [of ?doc ?doc] both
  have "style (fst (watch_run Closed (watch_run Open (?doc, None)))) = style ?doc" by blast
  then have b: "style (fst (watch_run Closed (watch_run Open (?doc, None))))
      = (\<lambda>p. [])(''overflow-x'' := ''auto'', ''overflow-y'' := ''auto'')" by simp
  from a b show ?thesis by blast
qed

text \<open>
  C9 as stated fails. On a document with no inline style the open dialog declares
  \<^verbatim>\<open>overflow-x\<close>, a property other than the two the claim names. On a document that
  declares \<^verbatim>\<open>overflow-x\<close> only, \<^verbatim>\<open>style.overflow\<close> reads empty, and restoring the empty
  value removes the declaration of \<^verbatim>\<open>overflow-x\<close>: it is not as before the dialog
  opened. With a negative measured width the padding is not set.
\<close>

theorem scroll_lock_shorthand_counterexample:
  "style (fst (watch_run Open
      (\<lparr>style = (\<lambda>p. []), innerWidth = 1024, clientWidth = 1009\<rparr>, None))) ''overflow-x''
     = ''hidden'' \<and>
   style (fst (watch_run Closed (watch_run Open
      (\<lparr>style = (\<lambda>p. [])(''overflow-x'' := ''scroll''), innerWidth = 1024, clientWidth = 1009\<rparr>,
       None)))) ''overflow-x'' = [] \<and>
   get_paddingRight (fst (watch_run Open
      (\<lparr>style = (\<lambda>p. []), innerWidth = 1000, clientWidth = 1010\<rparr>, None))) = []"
  by (simp add: watch_run_def scrollLock_def get_overflow_def get_paddingRight_def
      set_paddingRight_def Let_def)

section \<open>Lemmas about the transition engine\<close>

lemma set_addClasses: "set (addClasses cs cl) = set cl \<union> set cs"
  by (induction cs arbitrary: cl) auto

lemma set_removeClasses: "set (removeClasses cs cl) = set cl - set cs"
  by (auto simp: removeClasses_def)

lemma remove_add_absorb:
  "set cs \<subseteq> set rs \<Longrightarrow> removeClasses rs (addClasses cs cl) = removeClasses rs cl"
proof (induction cs arbitrary: cl)
  case Nil
  then show ?case by simp
next
  case (Cons c cs)
  then have "removeClasses rs (addClasses (c # cs) cl)
      = removeClasses rs (if c \<in> set cl then cl else cl @ [c])" by simp
  also have "\<dots> = removeClasses rs cl"
    using Cons.prems by (simp add: removeClasses_def)
  finally show ?case .
qed

lemma remove_remove_absorb:
  "set cs \<subseteq> set rs \<Longrightarrow> removeClasses rs (removeClasses cs cl) = removeClasses rs cl"
  by (induction cl) (auto simp: removeClasses_def)

lemma base_sub: "set (base d cl) \<subseteq> set (transition_classes cl)"
  by (cases d) (auto simp: transition_classes_def)
lemma from_sub: "set (from_classes d cl) \<subseteq> set (transition_classes cl)"
  by (cases d) (auto simp: transition_classes_def)
lemma to_sub: "set (to_classes d cl) \<subseteq> set (transition_classes cl)"
  by (cases d) (auto simp: transition_classes_def)

lemma start_present:
  "target e = Some cl \<Longrightarrow> start d e =
     e\<lparr>events := events e @ [before d], phase := running d,
        target := Some (addClasses (base d (classes e) @ from_classes d (classes e)) cl),
        pending := Some NextFrame\<rparr>"
  by (simp add: start_def cancel_def)

lemma swap_start:
  "target e = Some cl \<Longrightarrow> swap_classes (start d e) =
     (start d e)\<lparr>target := Some (addClasses (to_classes d (classes e))
         (removeClasses (from_classes d (classes e))
            (addClasses (base d (classes e) @ from_classes d (classes e)) cl)))\<rparr>"
  by (cases d) (simp_all add: start_present swap_classes_def)

lemma no_pending_deliver: "pending e = None \<Longrightarrow> deliver e cb = e"
  by (cases cb) (simp_all add: next_frame_def transition_end_def)

lemma no_pending_deliver_all: "pending e = None \<Longrightarrow> foldl deliver e cbs = e"
  by (induction cbs) (simp_all add: no_pending_deliver)

lemma swap_classes_events: "events (swap_classes x) = events x"
  by (cases "phase x") (simp_all add: swap_classes_def)

lemma strip_classes [simp]: "classes (strip e) = classes e"
  by (simp add: strip_def)

lemma complete_swap_start:
  "target e = Some cl \<Longrightarrow> complete (swap_classes (start d e)\<lparr>pending := p\<rparr>) =
     e\<lparr>events := events e @ [before d, after d], phase := Idle,
        target := Some (removeClasses (transition_classes (classes e)) cl),
        pending := None, completions := completions e + 1\<rparr>"
proof -
  assume t: "target e = Some cl"
  let ?all = "transition_classes (classes e)"
  have "removeClasses ?all (addClasses (to_classes d (classes e))
         (removeClasses (from_classes d (classes e))
            (addClasses (base d (classes e) @ from_classes d (classes e)) cl)))
        = removeClasses ?all cl"
    using base_sub [of d "classes e"] from_sub [of d "classes e"] to_sub [of d "classes e"]
    by (simp add: remove_add_absorb remove_remove_absorb)
  moreover have "swap_classes (start d e) =
      e\<lparr>events := events e @ [before d], phase := running d,
        target := Some (addClasses (to_classes d (classes e))
         (removeClasses (from_classes d (classes e))
            (addClasses (base d (classes e) @ from_classes d (classes e)) cl))),
        pending := Some NextFrame\<rparr>"
    using t by (cases d) (simp_all add: start_present swap_classes_def)
  ultimately show ?thesis
    by (cases d) (simp_all add: complete_def strip_def)
qed

lemma full_run_present:
  "target e = Some cl \<Longrightarrow> full_run d durations e =
     e\<lparr>events := events e @ [before d, after d], phase := Idle,
        target := Some (removeClasses (transition_classes (classes e)) cl),
        pending := None, completions := completions e + 1\<rparr>"
proof -
  assume t: "target e = Some cl"
  have p: "pending (start d e) = Some NextFrame"
    using t by (simp add: start_present)
  show ?thesis
  proof (cases "real_time durations")
    case True
    then have "next_frame durations (start d e) = (swap_classes (start d e))\<lparr>pending := Some Completion\<rparr>"
      using p by (simp add: next_frame_def)
    then have "full_run d durations e = complete ((swap_classes (start d e))\<lparr>pending := Some Completion\<rparr>)"
      by (simp add: full_run_def transition_end_def)
    then show ?thesis using t by (simp add: complete_swap_start)
  next
    case False
    then have "next_frame durations (start d e) = complete (swap_classes (start d e))"
      using p by (simp add: next_frame_def)
    moreover have "complete (swap_classes (start d e)) = complete ((swap_classes (start d e))\<lparr>pending := None\<rparr>)"
      by (cases d; cases "target e") (simp_all add: complete_def strip_def swap_classes_def start_def cancel_def)
    ultimately show ?thesis
      using t by (simp add: full_run_def transition_end_def complete_swap_start)
  qed
qed

section \<open>Claims about the transition engine\<close>

text \<open>
  C1. For a run on a target element the class mutations come in three steps, in this
  order. The start applies the base and from classes at once and leaves the swap
  pending; a completion signal that arrives before the swap changes nothing. The next
  frame removes the from classes and adds the to classes and, when the computed style
  has a real time, leaves the clean-up pending; a further frame changes nothing. When
  the computed style has no real time, the clean-up follows the swap at once. After
  the full run the element has the classes it had before the run minus every
  transition class, so none of the enter, leave, from or to classes remains, and the
  engine is idle with nothing pending.
\<close>
theorem class_mutations_ordered:
  assumes "target e = Some cl"
  shows
  "target (start d e) = Some (addClasses (base d (classes e) @ from_classes d (classes e)) cl) \<and>
   pending (start d e) = Some NextFrame \<and>
   transition_end (start d e) = start d e \<and>
   (real_time durations \<longrightarrow>
      target (next_frame durations (start d e)) =
        Some (addClasses (to_classes d (classes e))
               (removeClasses (from_classes d (classes e))
                 (addClasses (base d (classes e) @ from_classes d (classes e)) cl))) \<and>
      pending (next_frame durations (start d e)) = Some Completion \<and>
      next_frame ds (next_frame durations (start d e)) = next_frame durations (start d e)) \<and>
   (\<not> real_time durations \<longrightarrow>
      next_frame durations (start d e) = full_run d durations e) \<and>
   target (full_run d durations e) = Some (removeClasses (transition_classes (classes e)) cl) \<and>
   set (removeClasses (transition_classes (classes e)) cl) \<inter> set (transition_classes (classes e)) = {} \<and>
   phase (full_run d durations e) = Idle \<and> pending (full_run d durations e) = None"
proof -
  note s = start_present [OF assms, of d]
  have a: "target (start d e) = Some (addClasses (base d (classes e) @ from_classes d (classes e)) cl)"
    by (simp add: s)
  have b: "pending (start d e) = Some NextFrame"
    by (simp add: s)
  have c: "transition_end (start d e) = start d e"
    using b by (simp add: transition_end_def)
  have n: "real_time durations \<Longrightarrow> next_frame durations (start d e)
      = (swap_classes (start d e))\<lparr>pending := Some Completion\<rparr>"
    using b by (simp add: next_frame_def)
  have d1: "real_time durations \<longrightarrow>
      target (next_frame durations (start d e)) =
        Some (addClasses (to_classes d (classes e))
               (removeClasses (from_classes d (classes e))
                 (addClasses (base d (classes e) @ from_classes d (classes e)) cl)))"
    using n by (simp add: swap_start [OF assms])
  have d2: "real_time durations \<longrightarrow> pending (next_frame durations (start d e)) = Some Completion"
    using n by simp
  have d3: "real_time durations \<longrightarrow>
      next_frame ds (next_frame durations (start d e)) = next_frame durations (start d e)"
  proof
    assume r: "real_time durations"
    with d2 have "pending (next_frame durations (start d e)) = Some Completion" by simp
    then show "next_frame ds (next_frame durations (start d e)) = next_frame durations (start d e)"
      by (simp add: next_frame_def)
  qed
  have z: "\<not> real_time durations \<longrightarrow> next_frame durations (start d e) = full_run d durations e"
  proof
    assume "\<not> real_time durations"
    then have fin: "next_frame durations (start d e) = complete (swap_classes (start d e))"
      using b by (simp add: next_frame_def)
    have "complete (swap_classes (start d e)) = complete ((swap_classes (start d e))\<lparr>pending := None\<rparr>)"
      by (cases d) (simp_all add: start_present [OF assms] complete_def strip_def swap_classes_def)
    then have "pending (complete (swap_classes (start d e))) = None"
      by (simp add: complete_swap_start [OF assms])
    with fin show "next_frame durations (start d e) = full_run d durations e"
      by (simp add: full_run_def transition_end_def)
  qed
  note f = full_run_present [OF assms, of d durations]
  have g: "target (full_run d durations e) = Some (removeClasses (transition_classes (classes e)) cl)"
    by (simp add: f)
  have h: "set (removeClasses (transition_classes (classes e)) cl) \<inter> set (transition_classes (classes e)) = {}"
    by (auto simp: set_removeClasses)
  have i: "phase (full_run d durations e) = Idle" by (simp add: f)
  have j: "pending (full_run d durations e) = None" by (simp add: f)
  from a b c d1 d2 d3 z g h i j show ?thesis by blast
qed

text \<open>C1 at the enter run of the transition test: \<open>enter from\<close>, \<open>enter to\<close>, nothing.\<close>

theorem class_mutations_ordered_witness:
  "target (start Enter
      \<lparr>phase = Idle,
        classes = \<lparr>enterBase = [''enter''], enterFrom = [''from''], enterTo = [''to''],
                    leaveBase = [], leaveFrom = [], leaveTo = []\<rparr>,
        target = Some [], pending = None, events = [], completions = 0\<rparr>)
     = Some [''enter'', ''from''] \<and>
   target (next_frame [50] (start Enter
      \<lparr>phase = Idle,
        classes = \<lparr>enterBase = [''enter''], enterFrom = [''from''], enterTo = [''to''],
                    leaveBase = [], leaveFrom = [], leaveTo = []\<rparr>,
        target = Some [], pending = None, events = [], completions = 0\<rparr>))
     = Some [''enter'', ''to''] \<and>
   target (full_run Enter [50]
      \<lparr>phase = Idle,
        classes = \<lparr>enterBase = [''enter''], enterFrom = [''from''], enterTo = [''to''],
                    leaveBase = [], leaveFrom = [], leaveTo = []\<rparr>,
        target = Some [], pending = None, events = [], completions = 0\<rparr>)
     = Some []"
proof -
  let ?e = "\<lparr>phase = Idle,
        classes = \<lparr>enterBase = [''enter''], enterFrom = [''from''], enterTo = [''to''],
                    leaveBase = [], leaveFrom = [], leaveTo = []\<rparr>,
        target = Some [], pending = None, events = [], completions = 0\<rparr>"
  have present: "target ?e = Some []" by simp
  have real: "real_time [50]" by (simp add: real_time_def)
  note run = class_mutations_ordered [OF present, of Enter "[50]" "[]"]
  from run have "target (start Enter ?e) = Some [''enter'', ''from'']" by simp
  moreover from run real have "target (next_frame [50] (start Enter ?e)) = Some [''enter'', ''to'']"
    by (simp add: removeClasses_def)
  moreover from run have "target (full_run Enter [50] ?e) = Some []"
    by (simp add: removeClasses_def)
  ultimately show ?thesis by blast
qed


text \<open>
  C2. A full run on a target element emits the \<^verbatim>\<open>before\<close> event of its direction and
  then the \<^verbatim>\<open>after\<close> event, each once and nothing else. A run cancelled after its
  start, before or after the swap, has emitted its \<^verbatim>\<open>before\<close> event only, and no
  callback the browser delivers afterwards adds an event; a run superseded by a new
  start has emitted its \<^verbatim>\<open>before\<close> event only, and the new run then emits its own two
  events. Cancelling where no run has started adds no event at all.
\<close>
theorem lifecycle_events_once:
  assumes "target e = Some cl"
  shows
  "events (full_run d durations e) = events e @ [before d, after d] \<and>
   events (foldl deliver (cancel (start d e)) cbs) = events e @ [before d] \<and>
   (real_time durations \<longrightarrow>
      events (foldl deliver (cancel (next_frame durations (start d e))) cbs) = events e @ [before d]) \<and>
   events (full_run d' durations (start d e)) = events e @ [before d, before d', after d'] \<and>
   events (foldl deliver (cancel e) cbs) = events e"
proof -
  have np: "\<And>x. pending (cancel x) = None" by (simp add: cancel_def)
  have ev: "\<And>x. events (cancel x) = events x" by (simp add: cancel_def)
  have a: "events (full_run d durations e) = events e @ [before d, after d]"
    by (simp add: full_run_present [OF assms])
  have b: "events (foldl deliver (cancel (start d e)) cbs) = events e @ [before d]"
    by (simp add: no_pending_deliver_all np ev start_present [OF assms])
  have p: "pending (start d e) = Some NextFrame"
    by (simp add: start_present [OF assms])
  have c: "real_time durations \<longrightarrow>
      events (foldl deliver (cancel (next_frame durations (start d e))) cbs) = events e @ [before d]"
    using p by (simp add: no_pending_deliver_all np ev next_frame_def swap_classes_events
        start_present [OF assms])
  have s: "events (full_run d' durations (start d e)) = events e @ [before d, before d', after d']"
  proof -
    have "target (start d e) =
        Some (addClasses (base d (classes e) @ from_classes d (classes e)) cl)"
      by (simp add: start_present [OF assms])
    from full_run_present [OF this, of d' durations] show ?thesis
      by (simp add: start_present [OF assms])
  qed
  have d: "events (foldl deliver (cancel e) cbs) = events e"
    by (simp add: no_pending_deliver_all np ev)
  from a b c s d show ?thesis by blast
qed

text \<open>C2 at an enter run, in full and cancelled before its first frame.\<close>

theorem lifecycle_events_once_witness:
  "events (full_run Enter [50]
      \<lparr>phase = Idle,
        classes = \<lparr>enterBase = [''enter''], enterFrom = [''from''], enterTo = [''to''],
                    leaveBase = [], leaveFrom = [], leaveTo = []\<rparr>,
        target = Some [], pending = None, events = [], completions = 0\<rparr>)
     = [BeforeEnter, AfterEnter] \<and>
   events (foldl deliver (cancel (start Enter
      \<lparr>phase = Idle,
        classes = \<lparr>enterBase = [''enter''], enterFrom = [''from''], enterTo = [''to''],
                    leaveBase = [], leaveFrom = [], leaveTo = []\<rparr>,
        target = Some [], pending = None, events = [], completions = 0\<rparr>))
      [Frame [50], TransitionEnd])
     = [BeforeEnter]"
proof -
  let ?e = "\<lparr>phase = Idle,
        classes = \<lparr>enterBase = [''enter''], enterFrom = [''from''], enterTo = [''to''],
                    leaveBase = [], leaveFrom = [], leaveTo = []\<rparr>,
        target = Some [], pending = None, events = [], completions = 0\<rparr>"
  have present: "target ?e = Some []" by simp
  note run = lifecycle_events_once
    [OF present, of Enter "[50]" "[Frame [50], TransitionEnd]" Leave]
  from run have "events (full_run Enter [50] ?e) = [BeforeEnter, AfterEnter]" by simp
  moreover from run
  have "events (foldl deliver (cancel (start Enter ?e)) [Frame [50], TransitionEnd]) = [BeforeEnter]"
    by simp
  ultimately show ?thesis by blast
qed


section \<open>Lemmas about the nested transition coordinator\<close>

lemma tracked_lookup:
  "map_of (map (\<lambda>child. (fst child, g (fst child))) children) k
     = (if k \<in> fst ` set children then Some (g k) else None)"
  by (induction children) auto

lemma tracked_update:
  "map (\<lambda>entry. if fst entry = k then (k, b) else entry)
       (map (\<lambda>child. (fst child, g (fst child))) children)
     = map (\<lambda>child. (fst child, (g(k := b)) (fst child))) children"
  by (induction children) auto

lemma tracked_busy:
  "is_busy (tracked children g ph m f) \<longleftrightarrow> (\<exists>k \<in> fst ` set children. g k) \<or> ph \<noteq> Idle"
  by (auto simp: is_busy_def tracked_def list_ex_iff)

lemma notifyBusy_tracked:
  assumes "k \<in> fst ` set children" "g k \<noteq> b"
  shows "notifyBusy k b (tracked children g ph m f)
     = settle (tracked children g ph m f) (tracked children (g(k := b)) ph m f)"
  using assms by (simp add: notifyBusy_def tracked_def tracked_lookup tracked_update del: map_map)

lemma shown_form_aux:
  "distinct (map fst (registry c) @ map fst children) \<Longrightarrow>
   foldl (\<lambda>c child. register_child (fst child) c) c children
     = c\<lparr>registry := registry c @ map (\<lambda>child. (fst child, False)) children\<rparr>"
proof (induction children arbitrary: c)
  case Nil
  then show ?case by simp
next
  case (Cons x xs)
  from Cons.prems have fresh: "fst x \<notin> fst ` set (registry c)" by auto
  then have r: "register_child (fst x) c = c\<lparr>registry := registry c @ [(fst x, False)]\<rparr>"
    by (simp add: register_child_def)
  have "distinct (map fst (registry (register_child (fst x) c)) @ map fst xs)"
    using Cons.prems by (auto simp: r)
  from Cons.IH [OF this] show ?case by (simp add: r)
qed

lemma shown_form:
  "distinct (map fst children) \<Longrightarrow> shown children = tracked children (\<lambda>k. False) Idle True 0"
  using shown_form_aux [of "\<lparr>registry = [], own = Idle, mounted = True, fired = 0\<rparr>" children]
  by (simp add: shown_def tracked_def)

lemma begin_aux:
  "set xs \<subseteq> set children \<Longrightarrow>
   foldl (\<lambda>c child. notifyBusy (fst child) True c) (tracked children g Leaving True 0) xs
     = tracked children (\<lambda>k. g k \<or> k \<in> fst ` set xs) Leaving True 0"
proof (induction xs arbitrary: g)
  case Nil
  then show ?case by simp
next
  case (Cons x xs)
  have step: "notifyBusy (fst x) True (tracked children g Leaving True 0)
      = tracked children (g(fst x := True)) Leaving True 0"
  proof (cases "g (fst x)")
    case True
    then have "g(fst x := True) = g" by (intro ext) auto
    moreover from True Cons.prems
    have "notifyBusy (fst x) True (tracked children g Leaving True 0) = tracked children g Leaving True 0"
      by (auto simp: notifyBusy_def tracked_def tracked_lookup)
    ultimately show ?thesis by simp
  next
    case False
    with Cons.prems show ?thesis
      by (simp add: notifyBusy_tracked settle_def tracked_busy)
  qed
  have "(\<lambda>k. (g(fst x := True)) k \<or> k \<in> fst ` set xs) = (\<lambda>k. g k \<or> k \<in> fst ` set (x # xs))"
    by auto
  with Cons step show ?case by simp
qed

lemma begin_form:
  "distinct (map fst children) \<Longrightarrow> begin_leave children = tracked children (\<lambda>k. True) Leaving True 0"
proof -
  assume d: "distinct (map fst children)"
  have "own_started Leave (shown children) = tracked children (\<lambda>k. False) Leaving True 0"
    by (simp add: shown_form [OF d] own_started_def tracked_def)
  then have "begin_leave children = tracked children (\<lambda>k. False \<or> k \<in> fst ` set children) Leaving True 0"
    using begin_aux [of children children "\<lambda>k. False"] by (simp add: begin_leave_def)
  moreover have "map (\<lambda>child. (fst child, fst child \<in> fst ` set children)) children
      = map (\<lambda>child. (fst child, True)) children"
    by (induction children) auto
  ultimately show ?thesis by (simp add: tracked_def)
qed


lemma leaving_busy: "is_busy (leaving children S m f) \<longleftrightarrow> \<not> parts children \<subseteq> S"
  by (auto simp: leaving_def tracked_busy parts_def)

lemma all_idle_leaving: "all_idle (leaving children S m f) = leaving children S False (f + 1)"
  by (simp add: all_idle_def leaving_def tracked_def)

lemma finished_leaving:
  assumes "k \<in> parts children" "k \<notin> S"
  shows "finished (leaving children S True 0) k =
     (if parts children \<subseteq> insert k S then leaving children (insert k S) False 1
      else leaving children (insert k S) True 0)"
proof -
  have busy: "is_busy (leaving children S True 0)"
    using assms by (auto simp: leaving_busy)
  have next_state: "finished (leaving children S True 0) k
      = settle (leaving children S True 0) (leaving children (insert k S) True 0)"
  proof (cases k)
    case Own
    with assms have "Own \<notin> S" by simp
    then have "(leaving children S True 0)\<lparr>own := Idle\<rparr> = leaving children (insert Own S) True 0"
      by (simp add: leaving_def tracked_def)
    with Own show ?thesis by (simp add: own_finished_def)
  next
    case (Child c)
    with assms have c: "c \<in> fst ` set children" "Child c \<notin> S"
      by (auto simp: parts_def)
    have "(\<lambda>k. Child k \<notin> S)(c := False) = (\<lambda>k. Child k \<notin> insert (Child c) S)"
      by (intro ext) auto
    moreover have "Own \<in> insert (Child c) S \<longleftrightarrow> Own \<in> S" by simp
    ultimately show ?thesis
      using c Child notifyBusy_tracked [of c children "\<lambda>k. Child k \<notin> S" False]
      by (simp add: leaving_def)
  qed
  show ?thesis
    unfolding next_state using busy
    by (simp add: settle_def leaving_busy all_idle_leaving)
qed

lemma finished_all:
  "distinct ks \<Longrightarrow> set ks \<subseteq> parts children \<Longrightarrow> set ks \<inter> S = {} \<Longrightarrow> \<not> parts children \<subseteq> S \<Longrightarrow>
   foldl finished (leaving children S True 0) ks =
     (if parts children \<subseteq> S \<union> set ks then leaving children (S \<union> set ks) False 1
      else leaving children (S \<union> set ks) True 0)"
proof (induction ks arbitrary: S)
  case Nil
  then show ?case by simp
next
  case (Cons k ks)
  from Cons.prems have k: "k \<in> parts children" "k \<notin> S" by auto
  note step = finished_leaving [OF k]
  show ?case
  proof (cases "parts children \<subseteq> insert k S")
    case True
    have "ks = []"
    proof (cases ks)
      case Nil
      then show ?thesis .
    next
      case (Cons x xs)
      with Cons.prems have "x \<in> parts children" "x \<notin> S" "x \<noteq> k" by auto
      with True show ?thesis by auto
    qed
    with True step show ?thesis by simp
  next
    case False
    have "foldl finished (leaving children (insert k S) True 0) ks =
       (if parts children \<subseteq> insert k S \<union> set ks then leaving children (insert k S \<union> set ks) False 1
        else leaving children (insert k S \<union> set ks) True 0)"
      using Cons.prems False by (intro Cons.IH) auto
    with False step show ?thesis by simp
  qed
qed

lemma schedule_set:
  "set (schedule p children) = insert (Own, p) ((\<lambda>child. (Child (fst child), snd child)) ` set children)"
  by (simp only: schedule_def set_sort list.set set_map)

lemma schedule_keys:
  "set (map fst (filter (\<lambda>due. snd due \<le> t) (schedule p children)))
     = {k. (k = Own \<and> p \<le> t) \<or> (\<exists>child \<in> set children. k = Child (fst child) \<and> snd child \<le> t)}"
proof -
  have "set (map fst (filter (\<lambda>due. snd due \<le> t) (schedule p children)))
      = fst ` {due \<in> set (schedule p children). snd due \<le> t}"
    by auto
  also have "\<dots> = {k. (k = Own \<and> p \<le> t) \<or>
        (\<exists>child \<in> set children. k = Child (fst child) \<and> snd child \<le> t)}"
    unfolding schedule_set by force
  finally show ?thesis .
qed

lemma schedule_distinct:
  assumes "distinct (map fst children)"
  shows "distinct (map fst (filter (\<lambda>due. snd due \<le> t) (schedule p children)))"
proof -
  have "distinct (map fst ((Own, p) # map (\<lambda>child. (Child (fst child), snd child)) children))"
    using assms by (auto simp: distinct_map comp_def inj_on_def)
  then have "distinct (map fst (schedule p children))"
    by (simp only: schedule_def distinct_map set_sort distinct_sort)
  then show ?thesis by (rule distinct_map_filter)
qed

section \<open>Claims about the nested transition coordinator\<close>

text \<open>
  C3. A parent whose children (with distinct identities) leave is mounted \<open>t\<close>
  milliseconds after it was told to hide iff its own leave or the leave of at least
  one child is not finished by then: it stays mounted while a child is still leaving
  and unmounts when the slowest leave completes, and its deferred completion
  callback has fired once when it is unmounted and not at all before. With a fast
  child (50 ms) and a slow child (150 ms) the parent is mounted when the fast child
  finishes and unmounted once the slow child has finished.
\<close>

theorem parent_waits_for_slowest_child:
  assumes "distinct (map fst children)"
  shows "(mounted (state_at p children t) \<longleftrightarrow> t < p \<or> (\<exists>child \<in> set children. t < snd child)) \<and>
         fired (state_at p children t) = (if mounted (state_at p children t) then 0 else 1)"
proof -
  let ?ks = "map fst (filter (\<lambda>due. snd due \<le> t) (schedule p children))"
  have start: "begin_leave children = leaving children {} True 0"
    by (simp add: begin_form [OF assms] leaving_def)
  have sub: "set ?ks \<subseteq> parts children"
    unfolding schedule_keys by (auto simp: parts_def)
  have "foldl finished (leaving children {} True 0) ?ks =
     (if parts children \<subseteq> {} \<union> set ?ks then leaving children ({} \<union> set ?ks) False 1
      else leaving children ({} \<union> set ?ks) True 0)"
    using schedule_distinct [OF assms] sub by (intro finished_all) (auto simp: parts_def)
  then have st: "state_at p children t =
     (if parts children \<subseteq> set ?ks then leaving children (set ?ks) False 1
      else leaving children (set ?ks) True 0)"
    by (simp add: state_at_def start)
  have unique: "\<And>a b. a \<in> set children \<Longrightarrow> b \<in> set children \<Longrightarrow> fst a = fst b \<Longrightarrow> a = b"
    using assms by (meson distinct_map inj_onD)
  have "\<not> parts children \<subseteq> set ?ks \<longleftrightarrow> t < p \<or> (\<exists>child \<in> set children. t < snd child)"
  proof
    assume "\<not> parts children \<subseteq> set ?ks"
    then obtain x where x: "x \<in> parts children" "x \<notin> set ?ks" by auto
    show "t < p \<or> (\<exists>child \<in> set children. t < snd child)"
    proof (cases x)
      case Own
      with x(2) show ?thesis unfolding schedule_keys by auto
    next
      case (Child c)
      with x(1) obtain child where "child \<in> set children" "fst child = c"
        by (auto simp: parts_def)
      with x(2) Child have "\<not> snd child \<le> t" unfolding schedule_keys by auto
      then have "t < snd child" by simp
      with \<open>child \<in> set children\<close> show ?thesis by blast
    qed
  next
    assume "t < p \<or> (\<exists>child \<in> set children. t < snd child)"
    then show "\<not> parts children \<subseteq> set ?ks"
    proof
      assume "t < p"
      then have "Own \<notin> set ?ks" unfolding schedule_keys by auto
      then show ?thesis by (auto simp: parts_def)
    next
      assume "\<exists>child \<in> set children. t < snd child"
      then obtain child where c: "child \<in> set children" "t < snd child" by auto
      have "Child (fst child) \<notin> set ?ks"
      proof
        assume "Child (fst child) \<in> set ?ks"
        then obtain other where o: "other \<in> set children" "fst other = fst child" "snd other \<le> t"
          unfolding schedule_keys by auto
        with c(1) have "other = child" by (intro unique) auto
        with o c show False by simp
      qed
      moreover have "Child (fst child) \<in> parts children"
        using c by (auto simp: parts_def)
      ultimately show ?thesis by auto
    qed
  qed
  then show ?thesis
    unfolding st by (auto simp: leaving_def tracked_def)
qed

text \<open>C3 at the fast and the slow child, under a parent with no leave of its own.\<close>

theorem parent_waits_for_slowest_child_witness:
  "mounted (state_at 0 [(''fast'', 50), (''slow'', 150)] 50) \<and>
   mounted (state_at 0 [(''fast'', 50), (''slow'', 150)] 149) \<and>
   \<not> mounted (state_at 0 [(''fast'', 50), (''slow'', 150)] 150) \<and>
   fired (state_at 0 [(''fast'', 50), (''slow'', 150)] 150) = 1"
proof -
  have d: "distinct (map fst [(''fast'', 50::nat), (''slow'', 150)])" by simp
  note w = parent_waits_for_slowest_child [OF d, where p = 0]
  from w [where t = 50] have a: "mounted (state_at 0 [(''fast'', 50), (''slow'', 150)] 50)" by simp
  from w [where t = 149] have b: "mounted (state_at 0 [(''fast'', 50), (''slow'', 150)] 149)" by simp
  from w [where t = 150] have c: "\<not> mounted (state_at 0 [(''fast'', 50), (''slow'', 150)] 150)" by simp
  with w [where t = 150] have e: "fired (state_at 0 [(''fast'', 50), (''slow'', 150)] 150) = 1" by simp
  from a b c e show ?thesis by blast
qed

section \<open>Claims about the focus trap\<close>

text \<open>
  C5. Activation fails with \<open>NoFocusableElementError\<close> exactly when the focusable set
  is empty and no explicit initial-focus target was supplied; the error is the result
  of the activation itself. When the set is not empty or an explicit target is given,
  the activation succeeds, the trap is active and the initial target has the focus.
\<close>

theorem activate_no_focusable_error:
  "(activate cs init t = Inl NoFocusableElementError \<longleftrightarrow> focusable_elements cs = [] \<and> init = None) \<and>
   (focusable_elements cs \<noteq> [] \<or> init \<noteq> None \<longrightarrow>
      (\<exists>t'. activate cs init t = Inr t' \<and> active t' \<and> focused t' = initial_target cs init))"
  by (simp add: activate_def)

text \<open>C5 at a container with a span only, with a button, and with an explicit target.\<close>

theorem activate_no_focusable_error_witness:
  "activate [[(btn ''s'')\<lparr>tag := Other\<rparr>]] None (inactive None) = Inl NoFocusableElementError \<and>
   activate [[btn ''b'']] None (inactive None) \<noteq> Inl NoFocusableElementError \<and>
   activate [[(btn ''s'')\<lparr>tag := Other\<rparr>]] (Some (btn ''b'')) (inactive None) \<noteq> Inl NoFocusableElementError"
  using activate_no_focusable_error [of "[[(btn ''s'')\<lparr>tag := Other\<rparr>]]" None "inactive None"]
    activate_no_focusable_error [of "[[btn ''b'']]" None "inactive None"]
    activate_no_focusable_error [of "[[(btn ''s'')\<lparr>tag := Other\<rparr>]]" "Some (btn ''b'')" "inactive None"]
  by (simp add: focusable_elements_def focusable_def interactive_def btn_def)

section \<open>The models against the tests of the repository\<close>

text \<open>
  The focus-trap test: the first focusable element gets the focus, tab goes through
  \<open>a\<close>, \<open>b\<close>, \<open>c\<close> and wraps, shift and tab goes backwards and wraps.
\<close>

lemma test_tab_cycle:
  "map_sum id (\<lambda>t. map (\<lambda>evs. map_option name (focused (foldl handle t evs)))
        [[], [TabForward], [TabForward, TabForward], [TabForward, TabForward, TabForward],
         [TabBackward], [TabBackward, TabBackward]])
     (activate [[btn ''a'', btn ''b'', btn ''c'']] None (inactive None))
   = Inr [Some ''a'', Some ''b'', Some ''c'', Some ''a'', Some ''c'', Some ''b'']"
  by (simp add: activate_def initial_target_def focusable_elements_def focusable_def
      interactive_def btn_def inactive_def tab_def wrap_next_def Let_def)

text \<open>
  The focus-trap test on escaping: with the trap on \<open>b\<close>, \<open>c\<close>, \<open>d\<close> and an input \<open>a\<close>
  outside, the focus goes by tab to \<open>c\<close>, stays there when \<open>a\<close> is focused, follows a
  click on \<open>b\<close> and a focus on \<open>d\<close>, and stays there when \<open>a\<close> is focused again.
\<close>

lemma test_no_programmatic_escape:
  "map_sum id (\<lambda>t. map (\<lambda>evs. map_option name (focused (foldl handle t evs)))
        [[], [TabForward], [TabForward, FocusMoved (btn ''a'')],
         [TabForward, FocusMoved (btn ''a''), FocusMoved (btn ''b''), FocusMoved (btn ''a'')],
         [TabForward, FocusMoved (btn ''a''), FocusMoved (btn ''b''), FocusMoved (btn ''a''),
          FocusMoved (btn ''d''), FocusMoved (btn ''a'')]])
     (activate [[btn ''b'', btn ''c'', btn ''d'']] None (inactive (Some (btn ''a''))))
   = Inr [Some ''b'', Some ''c'', Some ''c'', Some ''b'', Some ''d'']"
  by (simp add: activate_def initial_target_def focusable_elements_def focusable_def
      interactive_def btn_def inactive_def tab_def wrap_next_def focus_guard_def
      in_boundary_def Let_def)

text \<open>The focus-trap test: hidden and disabled elements are skipped.\<close>

lemma test_skip_hidden:
  "map_sum id (\<lambda>t. map (\<lambda>evs. map_option name (focused (foldl handle t evs)))
        [[], [TabForward], [TabForward, TabForward]])
     (activate [[(btn ''a'')\<lparr>display_none := True\<rparr>, btn ''b'', (btn ''c'')\<lparr>disabled := True\<rparr>,
                 btn ''d'']] None (inactive None))
   = Inr [Some ''b'', Some ''d'', Some ''b'']"
  by (simp add: activate_def initial_target_def focusable_elements_def focusable_def
      interactive_def btn_def inactive_def tab_def wrap_next_def Let_def)

text \<open>The focus-trap test: the focus is restored when the trap is torn down.\<close>

lemma test_restore_focus:
  "map_sum id (\<lambda>t. map_option name (focused (deactivate (\<lambda>el. True) t)))
     (activate [[btn ''item-3'']] None (inactive (Some (btn ''item-2''))))
   = Inr (Some ''item-2'')"
  by (simp add: activate_def initial_target_def focusable_elements_def focusable_def
      interactive_def btn_def inactive_def deactivate_def)

lemma deactivate_inactive: "\<not> active t \<Longrightarrow> deactivate attached t = t"
  by (simp add: deactivate_def)

text \<open>
  The transition test on events: an enter run and then a leave run emit the four
  events in order, and the class list goes through the snapshots of the test.
\<close>

lemma test_events_in_order:
  "events (full_run Leave [75] (full_run Enter [50]
      \<lparr>phase = Idle,
        classes = \<lparr>enterBase = [''enter''], enterFrom = [''enter-from''], enterTo = [''enter-to''],
                    leaveBase = [''leave''], leaveFrom = [''leave-from''], leaveTo = [''leave-to'']\<rparr>,
        target = Some [], pending = None, events = [], completions = 0\<rparr>))
   = [BeforeEnter, AfterEnter, BeforeLeave, AfterLeave]"
  by (simp add: full_run_present)

lemma test_leave_snapshots:
  "map (\<lambda>run. target (run
      \<lparr>phase = Idle,
        classes = \<lparr>enterBase = [''enter''], enterFrom = [''enter-from''], enterTo = [''enter-to''],
                    leaveBase = [''leave''], leaveFrom = [''leave-from''], leaveTo = [''leave-to'']\<rparr>,
        target = Some [], pending = None, events = [], completions = 0\<rparr>))
     [start Leave, \<lambda>e. next_frame [75] (start Leave e), full_run Leave [75]]
   = [Some [''leave'', ''leave-from''], Some [''leave'', ''leave-to''], Some []]"
  by (simp add: full_run_def start_def cancel_def next_frame_def real_time_def swap_classes_def
      transition_end_def complete_def strip_def removeClasses_def transition_classes_def)

end
